theory Spec2Isabelle
  imports Complex_Main
begin

section \<open>Python text primitives used by the title matcher\<close>

text \<open>
  Python strings are modelled as \<open>string\<close>; a \<open>char\<close> stands for the code point of the
  same number (ASCII and Latin-1, code points 0 to 255). The three character classes below
  are the ones \<open>re\<close> and \<open>str\<close> use on such code points: \<open>\s\<close> and \<open>str.split\<close> use
  \<open>str.isspace\<close>, \<open>\w\<close> is "alphanumeric or underscore", \<open>str.lower\<close> maps the
  upper-case letters to their lower-case partners.
\<close>

definition py_isspace :: "char \<Rightarrow> bool" where
  "py_isspace c =
     (let n = (of_char c :: nat)
      in (9 \<le> n \<and> n \<le> 13) \<or> (28 \<le> n \<and> n \<le> 32) \<or> n = 133 \<or> n = 160)"

definition py_isword :: "char \<Rightarrow> bool" where
  "py_isword c =
     (let n = (of_char c :: nat)
      in (48 \<le> n \<and> n \<le> 57) \<or> (65 \<le> n \<and> n \<le> 90) \<or> n = 95 \<or> (97 \<le> n \<and> n \<le> 122)
         \<or> n = 170 \<or> n = 178 \<or> n = 179 \<or> n = 181 \<or> n = 185 \<or> n = 186
         \<or> (188 \<le> n \<and> n \<le> 190) \<or> (192 \<le> n \<and> n \<le> 214) \<or> (216 \<le> n \<and> n \<le> 246)
         \<or> (248 \<le> n \<and> n \<le> 255))"

definition py_lower_char :: "char \<Rightarrow> char" where
  "py_lower_char c =
     (let n = (of_char c :: nat)
      in if (65 \<le> n \<and> n \<le> 90) \<or> (192 \<le> n \<and> n \<le> 214) \<or> (216 \<le> n \<and> n \<le> 222)
         then char_of (n + 32) else c)"

definition py_lower :: "string \<Rightarrow> string" where
  "py_lower s = map py_lower_char s"

text \<open>\<open>s.split()\<close>: the maximal runs of non-whitespace characters, in order.\<close>

fun split_acc :: "string \<Rightarrow> string \<Rightarrow> string list" where
  "split_acc [] w = (if w = [] then [] else [w])"
| "split_acc (c # cs) w =
     (if py_isspace c then (if w = [] then split_acc cs [] else w # split_acc cs [])
      else split_acc cs (w @ [c]))"

definition py_split :: "string \<Rightarrow> string list" where
  "py_split s = split_acc s []"

text \<open>\<open>sep.join(parts)\<close>.\<close>

fun py_join :: "string \<Rightarrow> string list \<Rightarrow> string" where
  "py_join sep [] = []"
| "py_join sep [w] = w"
| "py_join sep (w # ws) = w @ sep @ py_join sep ws"

section \<open>The sequence matcher (\<open>difflib.SequenceMatcher(None, a, b).ratio()\<close>)\<close>

text \<open>
  \<open>title_similarity\<close> delegates to Python's standard \<open>difflib\<close>. The model follows that
  module's algorithm with \<open>isjunk = None\<close> and \<open>autojunk = True\<close>, the way the repository
  constructs the matcher.

  \<open>b2j\<close> is the index \<open>__chain_b\<close> builds for the second sequence: for each element the
  ascending list of its positions in \<open>b\<close>, with the "popular" elements removed when
  \<open>len(b) >= 200\<close> (those occurring more than \<open>len(b) // 100 + 1\<close> times). No element is
  junk, because \<open>isjunk\<close> is \<open>None\<close>.
\<close>

definition b2j :: "string \<Rightarrow> char \<Rightarrow> nat list" where
  "b2j b elt =
     (let n = length b
      in if 200 \<le> n \<and> n div 100 + 1 < count_list b elt then []
         else filter (\<lambda>j. b ! j = elt) [0..<n])"

text \<open>
  The inner loop of \<open>find_longest_match\<close>, for one \<open>i\<close>: \<open>for j in b2j.get(a[i], nothing)\<close>.
  \<open>j2len\<close> is the dictionary of the previous row, \<open>newj2len\<close> the one being built and
  \<open>(besti, bestj, bestsize)\<close> the best block so far. \<open>j2len.get(j - 1, 0)\<close> is \<open>0\<close> for
  \<open>j = 0\<close>, since no key is negative.
\<close>

fun flm_row ::
  "(nat \<rightharpoonup> nat) \<Rightarrow> nat \<Rightarrow> nat \<Rightarrow> nat \<Rightarrow> nat list \<Rightarrow> (nat \<rightharpoonup> nat) \<times> nat \<times> nat \<times> nat
     \<Rightarrow> (nat \<rightharpoonup> nat) \<times> nat \<times> nat \<times> nat" where
  "flm_row j2len i blo bhi [] st = st"
| "flm_row j2len i blo bhi (j # js) (newj2len, besti, bestj, bestsize) =
     (if j < blo then flm_row j2len i blo bhi js (newj2len, besti, bestj, bestsize)
      else if bhi \<le> j then (newj2len, besti, bestj, bestsize)
      else
        let k = (if j = 0 then 0 else (case j2len (j - 1) of None \<Rightarrow> 0 | Some v \<Rightarrow> v)) + 1
        in flm_row j2len i blo bhi js
             (newj2len(j \<mapsto> k),
              if bestsize < k then (i + 1 - k, j + 1 - k, k) else (besti, bestj, bestsize)))"

text \<open>The outer loop, \<open>for i in range(alo, ahi)\<close>; each row ends with \<open>j2len = newj2len\<close>.\<close>

fun flm_rows ::
  "string \<Rightarrow> string \<Rightarrow> nat \<Rightarrow> nat \<Rightarrow> nat list \<Rightarrow> (nat \<rightharpoonup> nat) \<times> nat \<times> nat \<times> nat
     \<Rightarrow> nat \<times> nat \<times> nat" where
  "flm_rows a b blo bhi [] (j2len, best) = best"
| "flm_rows a b blo bhi (i # is) (j2len, best) =
     flm_rows a b blo bhi is (flm_row j2len i blo bhi (b2j b (a ! i)) (Map.empty, best))"

text \<open>
  The two \<open>while\<close> loops that extend the best block by matching elements on each end.
  (The two further loops of the library, which absorb matching junk, never iterate here:
  their guard asks for a junk element and the junk set is empty.)
\<close>

function extend_left :: "string \<Rightarrow> string \<Rightarrow> nat \<Rightarrow> nat \<Rightarrow> nat \<times> nat \<times> nat \<Rightarrow> nat \<times> nat \<times> nat" where
  "extend_left a b alo blo (besti, bestj, bestsize) =
     (if alo < besti \<and> blo < bestj \<and> a ! (besti - 1) = b ! (bestj - 1)
      then extend_left a b alo blo (besti - 1, bestj - 1, bestsize + 1)
      else (besti, bestj, bestsize))"
  by pat_completeness auto
termination
  by (relation "measure (\<lambda>(a, b, alo, blo, besti, bestj, bestsize). besti)") auto

function extend_right :: "string \<Rightarrow> string \<Rightarrow> nat \<Rightarrow> nat \<Rightarrow> nat \<times> nat \<times> nat \<Rightarrow> nat \<times> nat \<times> nat" where
  "extend_right a b ahi bhi (besti, bestj, bestsize) =
     (if besti + bestsize < ahi \<and> bestj + bestsize < bhi
         \<and> a ! (besti + bestsize) = b ! (bestj + bestsize)
      then extend_right a b ahi bhi (besti, bestj, bestsize + 1)
      else (besti, bestj, bestsize))"
  by pat_completeness auto
termination
  by (relation "measure (\<lambda>(a, b, ahi, bhi, besti, bestj, bestsize). ahi - (besti + bestsize))") auto

definition find_longest_match :: "string \<Rightarrow> string \<Rightarrow> nat \<Rightarrow> nat \<Rightarrow> nat \<Rightarrow> nat \<Rightarrow> nat \<times> nat \<times> nat" where
  "find_longest_match a b alo ahi blo bhi =
     extend_right a b ahi bhi
       (extend_left a b alo blo
          (flm_rows a b blo bhi [alo..<ahi] (Map.empty, alo, blo, 0)))"


text \<open>
  The recursion equations of the two loops are used by hand (\<open>subst\<close>), or on concrete
  arguments, where the guard evaluates: as rewrite rules they would unfold without end.
\<close>

declare extend_left.simps [simp del] extend_right.simps [simp del]

text \<open>
  A block \<open>(i, j, k)\<close> lies inside the window \<open>a[alo:ahi]\<close>, \<open>b[blo:bhi]\<close>, or it is the
  empty block the search starts from.
\<close>

definition blk_ok :: "nat \<Rightarrow> nat \<Rightarrow> nat \<Rightarrow> nat \<Rightarrow> nat \<times> nat \<times> nat \<Rightarrow> bool" where
  "blk_ok alo ahi blo bhi best =
     (case best of (bi, bj, bs) \<Rightarrow>
        (bs = 0 \<and> bi = alo \<and> bj = blo)
        \<or> (alo \<le> bi \<and> bi + bs \<le> ahi \<and> blo \<le> bj \<and> bj + bs \<le> bhi))"

definition row_ok :: "nat \<Rightarrow> nat \<Rightarrow> nat \<Rightarrow> (nat \<rightharpoonup> nat) \<Rightarrow> bool" where
  "row_ok alo blo i m = (\<forall>j v. m j = Some v \<longrightarrow> v \<le> i - alo \<and> v \<le> j + 1 - blo \<and> blo \<le> j)"

lemma flm_row_inv:
  assumes "row_ok alo blo i j2len" "alo \<le> i" "i < ahi"
    and "row_ok alo blo (i + 1) new" "blk_ok alo ahi blo bhi best"
    and "flm_row j2len i blo bhi js (new, best) = (new', best')"
  shows "row_ok alo blo (i + 1) new' \<and> blk_ok alo ahi blo bhi best'"
  using assms(4-6)
proof (induction js arbitrary: new best)
  case Nil
  then show ?case by simp
next
  case (Cons j js)
  obtain bi bj bs where best: "best = (bi, bj, bs)" by (cases best) auto
  show ?case
  proof (cases "j < blo")
    case True
    with Cons best show ?thesis by simp
  next
    case lo: False
    show ?thesis
    proof (cases "bhi \<le> j")
      case True
      with Cons lo best show ?thesis by simp
    next
      case hi: False
      define k where "k = (if j = 0 then 0 else (case j2len (j - 1) of None \<Rightarrow> 0 | Some v \<Rightarrow> v)) + 1"
      have k1: "k \<le> i + 1 - alo"
        using assms(1,2) unfolding k_def row_ok_def by (auto split: option.splits) fastforce
      have k2: "k \<le> j + 1 - blo"
        using assms(1) lo unfolding k_def row_ok_def by (auto split: option.splits) fastforce
      have new_ok: "row_ok alo blo (i + 1) (new(j \<mapsto> k))"
        using Cons.prems(1) k1 k2 lo unfolding row_ok_def by auto
      have best_ok: "blk_ok alo ahi blo bhi (if bs < k then (i + 1 - k, j + 1 - k, k) else (bi, bj, bs))"
        using Cons.prems(2) k1 k2 lo hi assms(2,3) unfolding best blk_ok_def by auto
      have "flm_row j2len i blo bhi (j # js) (new, bi, bj, bs) =
            flm_row j2len i blo bhi js
              (new(j \<mapsto> k), if bs < k then (i + 1 - k, j + 1 - k, k) else (bi, bj, bs))"
        unfolding k_def by (simp only: flm_row.simps lo hi if_False Let_def)
      then have "flm_row j2len i blo bhi js
              (new(j \<mapsto> k), if bs < k then (i + 1 - k, j + 1 - k, k) else (bi, bj, bs)) = (new', best')"
        using Cons.prems(3) unfolding best by simp
      from Cons.IH[OF new_ok best_ok this] show ?thesis .
    qed
  qed
qed

lemma flm_rows_inv:
  assumes "row_ok alo blo i j2len" "alo \<le> i" "n \<le> ahi" "blk_ok alo ahi blo bhi best"
  shows "blk_ok alo ahi blo bhi (flm_rows a b blo bhi [i..<n] (j2len, best))"
  using assms
proof (induction "n - i" arbitrary: i j2len best)
  case 0
  then have "[i..<n] = []" by simp
  with 0 show ?case by simp
next
  case (Suc d)
  then have lt: "i < n" by simp
  have unroll: "[i..<n] = i # [i + 1..<n]"
    using upt_conv_Cons[OF lt] by simp
  obtain new' best' where
    r: "flm_row j2len i blo bhi (b2j b (a ! i)) (Map.empty, best) = (new', best')"
    by (cases "flm_row j2len i blo bhi (b2j b (a ! i)) (Map.empty, best)") auto
  have empty_ok: "row_ok alo blo (i + 1) Map.empty"
    by (simp add: row_ok_def)
  have i_ahi: "i < ahi" using lt Suc.prems(3) by simp
  have inv: "row_ok alo blo (i + 1) new' \<and> blk_ok alo ahi blo bhi best'"
    by (rule flm_row_inv[OF Suc.prems(1) Suc.prems(2) i_ahi empty_ok Suc.prems(4) r])
  have d: "d = n - (i + 1)" using Suc.hyps(2) by simp
  have le: "alo \<le> i + 1" using Suc.prems(2) by simp
  have "blk_ok alo ahi blo bhi (flm_rows a b blo bhi [i + 1..<n] (new', best'))"
    using Suc.hyps(1)[OF d _ le Suc.prems(3)] inv by blast
  then show ?case
    by (simp only: unroll flm_rows.simps r)
qed

lemma extend_left_inv:
  "blk_ok alo ahi blo bhi best \<Longrightarrow> blk_ok alo ahi blo bhi (extend_left a b alo blo best)"
proof (induction a b alo blo best rule: extend_left.induct)
  case (1 a b alo blo besti bestj bestsize)
  show ?case
  proof (cases "alo < besti \<and> blo < bestj \<and> a ! (besti - 1) = b ! (bestj - 1)")
    case True
    have "blk_ok alo ahi blo bhi (besti - 1, bestj - 1, bestsize + 1)"
      using True "1.prems" unfolding blk_ok_def by auto
    from "1.IH"[OF True this] show ?thesis
      by (subst extend_left.simps) (use True in simp)
  next
    case False
    from "1.prems" show ?thesis
      by (subst extend_left.simps) (simp only: False if_False)
  qed
qed

lemma extend_right_inv:
  "blk_ok alo ahi blo bhi best \<Longrightarrow> blk_ok alo ahi blo bhi (extend_right a b ahi bhi best)"
proof (induction a b ahi bhi best rule: extend_right.induct)
  case (1 a b ahi bhi besti bestj bestsize)
  show ?case
  proof (cases "besti + bestsize < ahi \<and> bestj + bestsize < bhi
                 \<and> a ! (besti + bestsize) = b ! (bestj + bestsize)")
    case True
    have "blk_ok alo ahi blo bhi (besti, bestj, bestsize + 1)"
      using True "1.prems" unfolding blk_ok_def by auto
    from "1.IH"[OF True this] show ?thesis
      by (subst extend_right.simps) (use True in simp)
  next
    case False
    from "1.prems" show ?thesis
      by (subst extend_right.simps) (simp only: False if_False)
  qed
qed

lemma find_longest_match_ok:
  "blk_ok alo ahi blo bhi (find_longest_match a b alo ahi blo bhi)"
proof -
  have start: "blk_ok alo ahi blo bhi (alo, blo, 0)"
    by (simp add: blk_ok_def)
  have empty_ok: "row_ok alo blo alo Map.empty"
    by (simp add: row_ok_def)
  have "blk_ok alo ahi blo bhi (flm_rows a b blo bhi [alo..<ahi] (Map.empty, alo, blo, 0))"
    by (rule flm_rows_inv[OF empty_ok order_refl order_refl start])
  then show ?thesis
    unfolding find_longest_match_def by (intro extend_right_inv extend_left_inv)
qed

lemma find_longest_match_bounds:
  assumes "find_longest_match a b alo ahi blo bhi = (i, j, k)" "k \<noteq> 0"
  shows "alo \<le> i" "i + k \<le> ahi" "blo \<le> j" "j + k \<le> bhi"
  using find_longest_match_ok[of alo ahi blo bhi a b] assms by (auto simp: blk_ok_def)

text \<open>
  \<open>get_matching_blocks\<close> keeps a work list of windows; each window contributes its longest
  block and, when they are not empty, the windows on the left and on the right of it. The
  windows do not interact, so the work list is the recursion below. (The library then sorts
  the blocks and merges adjacent ones, which leaves the sum of their sizes as it is.)
\<close>

function matching_blocks ::
  "string \<Rightarrow> string \<Rightarrow> nat \<Rightarrow> nat \<Rightarrow> nat \<Rightarrow> nat \<Rightarrow> (nat \<times> nat \<times> nat) list" where
  "matching_blocks a b alo ahi blo bhi =
     (case find_longest_match a b alo ahi blo bhi of
        (i, j, k) \<Rightarrow>
          if k = 0 then []
          else (i, j, k)
               # (if alo < i \<and> blo < j then matching_blocks a b alo i blo j else [])
               @ (if i + k < ahi \<and> j + k < bhi then matching_blocks a b (i + k) ahi (j + k) bhi
                  else []))"
  by pat_completeness auto
termination
proof (relation "measure (\<lambda>(a, b, alo, ahi, blo, bhi). ahi - alo)", goal_cases)
  case 1
  show ?case by simp
next
  case (2 a b alo ahi blo bhi i y j k)
  then have flm: "find_longest_match a b alo ahi blo bhi = (i, j, k)" and k: "k \<noteq> 0"
    and l: "alo < i"
    by simp_all
  have "i + k \<le> ahi" by (rule find_longest_match_bounds(2)[OF flm k])
  with k l have "i - alo < ahi - alo" by arith
  then show ?case by simp
next
  case (3 a b alo ahi blo bhi i y j k)
  then have flm: "find_longest_match a b alo ahi blo bhi = (i, j, k)" and k: "k \<noteq> 0"
    and r: "i + k < ahi"
    by simp_all
  have "alo \<le> i" by (rule find_longest_match_bounds(1)[OF flm k])
  with k r have "ahi - (i + k) < ahi - alo" by arith
  then show ?case by simp
qed

declare matching_blocks.simps [simp del]

lemma matching_blocks_sum:
  "sum_list (map (\<lambda>(i, j, k). k) (matching_blocks a b alo ahi blo bhi)) \<le> ahi - alo
   \<and> sum_list (map (\<lambda>(i, j, k). k) (matching_blocks a b alo ahi blo bhi)) \<le> bhi - blo"
proof (induction a b alo ahi blo bhi rule: matching_blocks.induct)
  case (1 a b alo ahi blo bhi)
  obtain i j k where flm: "find_longest_match a b alo ahi blo bhi = (i, j, k)"
    by (cases "find_longest_match a b alo ahi blo bhi") auto
  show ?case
  proof (cases "k = 0")
    case True
    with flm show ?thesis by (subst (1 2) matching_blocks.simps) simp
  next
    case k: False
    note bnd = find_longest_match_bounds[OF flm k]
    let ?L = "if alo < i \<and> blo < j then matching_blocks a b alo i blo j else []"
    let ?R = "if i + k < ahi \<and> j + k < bhi then matching_blocks a b (i + k) ahi (j + k) bhi else []"
    let ?sz = "\<lambda>bs. sum_list (map (\<lambda>(i, j, k). k) bs)"
    have L: "?sz ?L \<le> i - alo \<and> ?sz ?L \<le> j - blo"
      using "1.IH"(1)[OF flm[symmetric] refl k] by (cases "alo < i \<and> blo < j") auto
    have R: "?sz ?R \<le> ahi - (i + k) \<and> ?sz ?R \<le> bhi - (j + k)"
      using "1.IH"(2)[OF flm[symmetric] refl k] by (cases "i + k < ahi \<and> j + k < bhi") auto
    have unroll: "matching_blocks a b alo ahi blo bhi = (i, j, k) # ?L @ ?R"
      by (subst matching_blocks.simps) (simp add: flm k)
    have "?sz ((i, j, k) # ?L @ ?R) = k + ?sz ?L + ?sz ?R" by simp
    with L R bnd have "?sz ((i, j, k) # ?L @ ?R) \<le> ahi - alo \<and> ?sz ((i, j, k) # ?L @ ?R) \<le> bhi - blo"
      by arith
    then show ?thesis by (simp only: unroll)
  qed
qed

text \<open>
  \<open>ratio()\<close>: with \<open>matches\<close> the sum of the sizes of the matching blocks and \<open>length\<close>
  the sum of the two lengths, \<open>2.0 * matches / length\<close>, and \<open>1.0\<close> when both sequences
  are empty. The quotient is a rational number; the model keeps it exact.
\<close>

definition ratio :: "string \<Rightarrow> string \<Rightarrow> rat" where
  "ratio a b =
     (let matches = sum_list (map (\<lambda>(i, j, k). k) (matching_blocks a b 0 (length a) 0 (length b)));
          len = length a + length b
      in if len \<noteq> 0 then 2 * of_nat matches / of_nat len else 1)"

section \<open>Title matcher (\<open>clean_title\<close>, \<open>title_similarity\<close>)\<close>

text \<open>
  The four provider clients carry the same two methods, word for word.
  \<open>clean_title\<close>: \<open>re.sub(r'[^\w\s-]', ' ', title)\<close>, then \<open>' '.join(title.split())\<close>, then
  \<open>lower()\<close>.
\<close>

definition clean_title :: "string \<Rightarrow> string" where
  "clean_title title =
     py_lower (py_join '' '' (py_split
       (map (\<lambda>c. if py_isword c \<or> py_isspace c \<or> c = CHR ''-'' then c else CHR '' '') title)))"

definition title_similarity :: "string \<Rightarrow> string \<Rightarrow> rat" where
  "title_similarity title1 title2 = ratio (clean_title title1) (clean_title title2)"

section \<open>The network and the provider payloads\<close>

text \<open>
  Every outbound call of a provider client is a \<open>request\<close>; the run of the engine leaves a
  \<open>trace\<close> of the requests it made and of the \<open>time.sleep\<close> calls between retries, in
  order. The argument of a request is what the client sends: the DOI or paper id, the PMID
  list, or the search text.
\<close>

datatype provider = Elsevier | PubMed | Crossref | SemanticScholar

datatype request =
    CrossrefWork string
  | CrossrefQuery string
  | S2Paper string
  | S2Search string
  | ElsevierAbstract string
  | ScopusSearch string
  | EntrezFetch "string list"
  | EntrezSearch string

datatype event = Request request | Sleep nat

type_synonym trace = "event list"

fun provider_of :: "request \<Rightarrow> provider" where
  "provider_of (CrossrefWork _) = Crossref"
| "provider_of (CrossrefQuery _) = Crossref"
| "provider_of (S2Paper _) = SemanticScholar"
| "provider_of (S2Search _) = SemanticScholar"
| "provider_of (ElsevierAbstract _) = Elsevier"
| "provider_of (ScopusSearch _) = Elsevier"
| "provider_of (EntrezFetch _) = PubMed"
| "provider_of (EntrezSearch _) = PubMed"

text \<open>
  A call either raises inside the client's \<open>try\<close> block (\<open>Failed\<close>: a
  \<open>RequestException\<close> from \<open>session.get\<close> or \<open>raise_for_status\<close>, any exception of the
  Entrez library) or delivers a payload.
\<close>

datatype 'a reply = Failed | Reply 'a

text \<open>
  The payloads are the JSON objects of the providers, reduced to the keys the clients read;
  an absent key is \<open>None\<close>. A Crossref title is a list of strings or a string.
\<close>

datatype cr_title = TitleList "string list" | TitleStr string

record cr_work =
  cr_DOI :: "string option"
  cr_title :: "cr_title option"
  cr_abstract :: "string option"

record s2_paper =
  s2_title :: "string option"
  s2_paperId :: "string option"
  s2_abstract :: "string option"

record s2_results =
  s2_total :: "int option"
  s2_papers :: "s2_paper list option"

text \<open>
  An Elsevier document holds \<open>abstracts-retrieval-response\<close> or
  \<open>full-text-retrieval-response\<close>; each holds \<open>coredata\<close> (or lacks it), whose
  \<open>dc:description\<close> is the abstract.
\<close>

datatype els_response = NoCoredata | Coredata "string option"

record els_doc =
  els_abstracts_retrieval :: "els_response option"
  els_full_text_retrieval :: "els_response option"

record els_hit =
  els_dc_title :: "string option"
  els_prism_doi :: "string option"

text \<open>
  A PubMed article: \<open>pm_ArticleTitle\<close> is \<open>article['MedlineCitation']['Article']['ArticleTitle']\<close>
  (\<open>None\<close> when a key on that path is missing), \<open>pm_AbstractText\<close> is
  \<open>article['MedlineCitation']['Article']['Abstract']['AbstractText']\<close> likewise.
\<close>

record pm_article =
  pm_ArticleTitle :: "string option"
  pm_AbstractText :: "string list option"

text \<open>
  The network answers a request from the trace so far and the request's argument, so the
  same request may fail now and succeed later. For the two JSON searches the payload is
  the list of hits, \<open>None\<close> when the object lacks the keys that lead to it.
\<close>

record network =
  crossref_work :: "trace \<Rightarrow> string \<Rightarrow> cr_work reply"
  crossref_query :: "trace \<Rightarrow> string \<Rightarrow> cr_work list option reply"
  s2_paper_get :: "trace \<Rightarrow> string \<Rightarrow> s2_paper reply"
  s2_search :: "trace \<Rightarrow> string \<Rightarrow> s2_results reply"
  elsevier_abstract :: "trace \<Rightarrow> string \<Rightarrow> els_doc reply"
  scopus_search :: "trace \<Rightarrow> string \<Rightarrow> els_hit list option reply"
  entrez_fetch :: "trace \<Rightarrow> string list \<Rightarrow> pm_article list reply"
  entrez_search :: "trace \<Rightarrow> string \<Rightarrow> string list reply"

section \<open>The retry loop of the clients\<close>

definition max_retries :: nat where
  "max_retries = 3"

definition retry_delay :: nat where
  "retry_delay = 1"

text \<open>
  \<open>for attempt in range(max_retries): try: ... except: if attempt == max_retries - 1: raise;
  time.sleep(retry_delay * (attempt + 1))\<close>. The body either leaves the loop with a value
  (\<open>return\<close>, \<open>break\<close>) or raises; the last attempt's exception leaves the loop as
  \<open>Failed\<close>. The loop is the same text in seven of the eight client methods.
\<close>

fun with_retries :: "(trace \<Rightarrow> 'a reply \<times> trace) \<Rightarrow> nat list \<Rightarrow> trace \<Rightarrow> 'a reply \<times> trace" where
  "with_retries body [] tr = (Failed, tr)"
| "with_retries body (attempt # rest) tr =
     (case body tr of
        (Reply x, tr') \<Rightarrow> (Reply x, tr')
      | (Failed, tr') \<Rightarrow>
          if attempt = max_retries - 1 then (Failed, tr')
          else with_retries body rest (tr' @ [Sleep (retry_delay * (attempt + 1))]))"

definition default_min_similarity :: rat where
  "default_min_similarity = 85 / 100"

section \<open>Crossref client\<close>

text \<open>\<open>get_by_doi\<close>: one \<open>session.get\<close>, no loop; a \<open>RequestException\<close> gives \<open>None\<close>.\<close>

definition crossref_get_by_doi :: "network \<Rightarrow> string \<Rightarrow> trace \<Rightarrow> cr_work option \<times> trace" where
  "crossref_get_by_doi net doi tr =
     (case crossref_work net tr doi of
        Failed \<Rightarrow> (None, tr @ [Request (CrossrefWork doi)])
      | Reply message \<Rightarrow> (Some message, tr @ [Request (CrossrefWork doi)]))"

text \<open>
  The title a result is scored by: \<open>None\<close> when the loop skips the result
  (\<open>'title' not in result or not result['title']\<close>), else the first element of the list, or
  the string.
\<close>

definition cr_result_title :: "cr_work \<Rightarrow> string option" where
  "cr_result_title result =
     (case cr_title result of
        None \<Rightarrow> None
      | Some (TitleList []) \<Rightarrow> None
      | Some (TitleList (t # ts)) \<Rightarrow> Some t
      | Some (TitleStr t) \<Rightarrow> (if t = [] then None else Some t))"

text \<open>The loop \<open>for result in results\<close>, with \<open>best_match\<close> and \<open>best_similarity\<close>.\<close>

fun cr_best :: "string \<Rightarrow> cr_work list \<Rightarrow> cr_work option \<times> rat \<Rightarrow> cr_work option \<times> rat" where
  "cr_best title [] best = best"
| "cr_best title (result # results) (best_match, best_similarity) =
     (case cr_result_title result of
        None \<Rightarrow> cr_best title results (best_match, best_similarity)
      | Some result_title \<Rightarrow>
          let similarity = title_similarity title result_title
          in if best_similarity < similarity then cr_best title results (Some result, similarity)
             else cr_best title results (best_match, best_similarity))"

text \<open>
  What \<open>search_by_title\<close> does with the response (from \<open>results = response.json()...\<close> to
  the end): \<open>None\<close> on a \<open>KeyError\<close> or an empty list, else the best match if its
  similarity reaches \<open>min_similarity\<close>.
\<close>

definition crossref_select :: "string \<Rightarrow> rat \<Rightarrow> cr_work list option \<Rightarrow> cr_work option" where
  "crossref_select title min_similarity items =
     (case items of
        None \<Rightarrow> None
      | Some results \<Rightarrow>
          if results = [] then None
          else (case cr_best title results (None, 0) of
                  (best_match, best_similarity) \<Rightarrow>
                    if min_similarity \<le> best_similarity then best_match else None))"

definition crossref_search_by_title ::
  "network \<Rightarrow> string \<Rightarrow> rat \<Rightarrow> trace \<Rightarrow> cr_work option \<times> trace" where
  "crossref_search_by_title net title min_similarity tr =
     (let search_title = clean_title title
      in case with_retries
                (\<lambda>t. (crossref_query net t search_title, t @ [Request (CrossrefQuery search_title)]))
                [0..<max_retries] tr of
           (Failed, tr') \<Rightarrow> (None, tr')
         | (Reply items, tr') \<Rightarrow> (crossref_select title min_similarity items, tr'))"

definition crossref_get_abstract :: "cr_work \<Rightarrow> string option" where
  "crossref_get_abstract entry = cr_abstract entry"

section \<open>Semantic Scholar client\<close>

definition s2_get_by_doi :: "network \<Rightarrow> string \<Rightarrow> trace \<Rightarrow> s2_paper option \<times> trace" where
  "s2_get_by_doi net doi tr =
     (case with_retries (\<lambda>t. (s2_paper_get net t doi, t @ [Request (S2Paper doi)]))
             [0..<max_retries] tr of
        (Failed, tr') \<Rightarrow> (None, tr')
      | (Reply paper, tr') \<Rightarrow> (Some paper, tr'))"

fun s2_best :: "string \<Rightarrow> s2_paper list \<Rightarrow> s2_paper option \<times> rat \<Rightarrow> s2_paper option \<times> rat" where
  "s2_best title [] best = best"
| "s2_best title (paper # papers) (best_match, best_similarity) =
     (case s2_title paper of
        None \<Rightarrow> s2_best title papers (best_match, best_similarity)
      | Some paper_title \<Rightarrow>
          let similarity = title_similarity title paper_title
          in if best_similarity < similarity then s2_best title papers (Some paper, similarity)
             else s2_best title papers (best_match, best_similarity))"

text \<open>
  \<open>search_by_title\<close>, as the engine calls it: with the default \<open>min_similarity = 0.85\<close>.
  After the retried search, a missing \<open>total\<close> or \<open>papers\<close> is a caught \<open>KeyError\<close>. A
  best match with a \<open>paperId\<close> is fetched again by that id, outside the retry loop: one
  request, and its failure is caught by the outer \<open>except\<close>. (A best similarity of at
  least 0.85 was set together with a best match, so \<open>best_match\<close> is not \<open>None\<close> where
  the source calls \<open>best_match.get\<close>.)
\<close>

definition s2_search_by_title :: "network \<Rightarrow> string \<Rightarrow> trace \<Rightarrow> s2_paper option \<times> trace" where
  "s2_search_by_title net title tr =
     (let search_title = clean_title title
      in case with_retries (\<lambda>t. (s2_search net t search_title, t @ [Request (S2Search search_title)]))
                [0..<max_retries] tr of
           (Failed, tr') \<Rightarrow> (None, tr')
         | (Reply data, tr') \<Rightarrow>
             (case s2_total data of
                None \<Rightarrow> (None, tr')
              | Some n \<Rightarrow>
                  if n = 0 then (None, tr')
                  else (case s2_papers data of
                          None \<Rightarrow> (None, tr')
                        | Some papers \<Rightarrow>
                            (case s2_best title papers (None, 0) of
                               (best_match, best_similarity) \<Rightarrow>
                                 if default_min_similarity \<le> best_similarity then
                                   (case best_match of
                                      None \<Rightarrow> (None, tr')
                                    | Some paper \<Rightarrow>
                                        (case s2_paperId paper of
                                           None \<Rightarrow> (Some paper, tr')
                                         | Some paper_id \<Rightarrow>
                                             if paper_id = [] then (Some paper, tr')
                                             else (case s2_paper_get net tr' paper_id of
                                                     Failed \<Rightarrow> (None, tr' @ [Request (S2Paper paper_id)])
                                                   | Reply details \<Rightarrow>
                                                       (Some details, tr' @ [Request (S2Paper paper_id)]))))
                                 else (None, tr')))))"

definition s2_get_abstract :: "s2_paper \<Rightarrow> string option" where
  "s2_get_abstract entry = s2_abstract entry"

section \<open>Elsevier client\<close>

definition elsevier_get_by_doi :: "network \<Rightarrow> string \<Rightarrow> trace \<Rightarrow> els_doc option \<times> trace" where
  "elsevier_get_by_doi net doi tr =
     (case with_retries (\<lambda>t. (elsevier_abstract net t doi, t @ [Request (ElsevierAbstract doi)]))
             [0..<max_retries] tr of
        (Failed, tr') \<Rightarrow> (None, tr')
      | (Reply doc, tr') \<Rightarrow> (Some doc, tr'))"

fun els_best :: "string \<Rightarrow> els_hit list \<Rightarrow> els_hit option \<times> rat \<Rightarrow> els_hit option \<times> rat" where
  "els_best title [] best = best"
| "els_best title (entry # entries) (best_match, best_similarity) =
     (case els_dc_title entry of
        None \<Rightarrow> els_best title entries (best_match, best_similarity)
      | Some entry_title \<Rightarrow>
          let similarity = title_similarity title entry_title
          in if best_similarity < similarity then els_best title entries (Some entry, similarity)
             else els_best title entries (best_match, best_similarity))"

text \<open>
  One attempt of \<open>search_by_title\<close>: the Scopus search (sent with the title as given), the
  choice of the best hit and, for a hit that reaches \<open>min_similarity\<close> and has a
  \<open>prism:doi\<close>, the lookup of the full record by that DOI. Everything but the failure of
  the search request itself returns from inside the loop.
\<close>

definition elsevier_search_attempt ::
  "network \<Rightarrow> string \<Rightarrow> rat \<Rightarrow> trace \<Rightarrow> els_doc option reply \<times> trace" where
  "elsevier_search_attempt net title min_similarity tr =
     (case scopus_search net tr title of
        Failed \<Rightarrow> (Failed, tr @ [Request (ScopusSearch title)])
      | Reply None \<Rightarrow> (Reply None, tr @ [Request (ScopusSearch title)])
      | Reply (Some entries) \<Rightarrow>
          (case els_best title entries (None, 0) of
             (best_match, best_similarity) \<Rightarrow>
               (case best_match of
                  None \<Rightarrow> (Reply None, tr @ [Request (ScopusSearch title)])
                | Some hit \<Rightarrow>
                    (case els_prism_doi hit of
                       None \<Rightarrow> (Reply None, tr @ [Request (ScopusSearch title)])
                     | Some doi \<Rightarrow>
                         if min_similarity \<le> best_similarity then
                           (case elsevier_get_by_doi net doi (tr @ [Request (ScopusSearch title)]) of
                              (doc, tr') \<Rightarrow> (Reply doc, tr'))
                         else (Reply None, tr @ [Request (ScopusSearch title)])))))"

definition elsevier_search_by_title ::
  "network \<Rightarrow> string \<Rightarrow> rat \<Rightarrow> trace \<Rightarrow> els_doc option \<times> trace" where
  "elsevier_search_by_title net title min_similarity tr =
     (case with_retries (elsevier_search_attempt net title min_similarity) [0..<max_retries] tr of
        (Failed, tr') \<Rightarrow> (None, tr')
      | (Reply doc, tr') \<Rightarrow> (doc, tr'))"

text \<open>
  \<open>get_abstract\<close>: the \<open>elif\<close> is tried only when the first key is absent; a missing
  \<open>coredata\<close> is the caught \<open>KeyError\<close>.
\<close>

definition elsevier_get_abstract :: "els_doc \<Rightarrow> string option" where
  "elsevier_get_abstract entry =
     (case els_abstracts_retrieval entry of
        Some NoCoredata \<Rightarrow> None
      | Some (Coredata description) \<Rightarrow> description
      | None \<Rightarrow>
          (case els_full_text_retrieval entry of
             Some NoCoredata \<Rightarrow> None
           | Some (Coredata description) \<Rightarrow> description
           | None \<Rightarrow> None))"

section \<open>PubMed client\<close>

text \<open>One attempt of \<open>get_by_pmid\<close>: the first article of the fetched records, if any.\<close>

definition pubmed_fetch_attempt ::
  "network \<Rightarrow> string \<Rightarrow> trace \<Rightarrow> pm_article option reply \<times> trace" where
  "pubmed_fetch_attempt net pmid tr =
     (case entrez_fetch net tr [pmid] of
        Failed \<Rightarrow> (Failed, tr @ [Request (EntrezFetch [pmid])])
      | Reply records \<Rightarrow>
          (case records of
             [] \<Rightarrow> (Reply None, tr @ [Request (EntrezFetch [pmid])])
           | article # _ \<Rightarrow> (Reply (Some article), tr @ [Request (EntrezFetch [pmid])])))"

definition pubmed_get_by_pmid :: "network \<Rightarrow> string \<Rightarrow> trace \<Rightarrow> pm_article option \<times> trace" where
  "pubmed_get_by_pmid net pmid tr =
     (case with_retries (pubmed_fetch_attempt net pmid) [0..<max_retries] tr of
        (Failed, tr') \<Rightarrow> (None, tr')
      | (Reply article, tr') \<Rightarrow> (article, tr'))"

text \<open>
  The loop over the fetched articles reads the title of every article; a missing key raises
  (\<open>None\<close> here), which the attempt's \<open>except Exception\<close> catches like a failed request.
\<close>

fun pm_best ::
  "string \<Rightarrow> pm_article list \<Rightarrow> pm_article option \<times> rat \<Rightarrow> (pm_article option \<times> rat) option" where
  "pm_best title [] best = Some best"
| "pm_best title (article # articles) (best_match, best_similarity) =
     (case pm_ArticleTitle article of
        None \<Rightarrow> None
      | Some article_title \<Rightarrow>
          let similarity = title_similarity title article_title
          in if best_similarity < similarity then pm_best title articles (Some article, similarity)
             else pm_best title articles (best_match, best_similarity))"

definition pubmed_search_attempt ::
  "network \<Rightarrow> string \<Rightarrow> rat \<Rightarrow> trace \<Rightarrow> pm_article option reply \<times> trace" where
  "pubmed_search_attempt net title min_similarity tr =
     (let search_title = clean_title title;
          tr1 = tr @ [Request (EntrezSearch search_title)]
      in case entrez_search net tr search_title of
           Failed \<Rightarrow> (Failed, tr1)
         | Reply id_list \<Rightarrow>
             if id_list = [] then (Reply None, tr1)
             else (case entrez_fetch net tr1 id_list of
                     Failed \<Rightarrow> (Failed, tr1 @ [Request (EntrezFetch id_list)])
                   | Reply records \<Rightarrow>
                       (case pm_best title records (None, 0) of
                          None \<Rightarrow> (Failed, tr1 @ [Request (EntrezFetch id_list)])
                        | Some (best_match, best_similarity) \<Rightarrow>
                            if min_similarity \<le> best_similarity
                            then (Reply best_match, tr1 @ [Request (EntrezFetch id_list)])
                            else (Reply None, tr1 @ [Request (EntrezFetch id_list)]))))"

definition pubmed_search_by_title ::
  "network \<Rightarrow> string \<Rightarrow> rat \<Rightarrow> trace \<Rightarrow> pm_article option \<times> trace" where
  "pubmed_search_by_title net title min_similarity tr =
     (case with_retries (pubmed_search_attempt net title min_similarity) [0..<max_retries] tr of
        (Failed, tr') \<Rightarrow> (None, tr')
      | (Reply article, tr') \<Rightarrow> (article, tr'))"

text \<open>\<open>get_abstract\<close>: \<open>AbstractText[0]\<close>; a missing key or an empty list gives \<open>None\<close>.\<close>

definition pubmed_get_abstract :: "pm_article \<Rightarrow> string option" where
  "pubmed_get_abstract entry =
     (case pm_AbstractText entry of
        None \<Rightarrow> None
      | Some [] \<Rightarrow> None
      | Some (text # _) \<Rightarrow> Some text)"

section \<open>The enrichment engine (\<open>BibTeXEnricher\<close>)\<close>

text \<open>
  A BibTeX entry is a \<open>Dict[str, str]\<close>. Of the constructor's arguments only two decide
  what the engine does: \<open>self.pubmed\<close> and \<open>self.elsevier\<close> exist when \<open>pubmed_email\<close>
  and \<open>elsevier_api_key\<close> are given and not empty. (The other credentials only set request
  headers; the response cache is off, as it is by default.)
\<close>

type_synonym bib_entry = "string \<rightharpoonup> string"

record enricher =
  pubmed_email :: "string option"
  elsevier_api_key :: "string option"

text \<open>Python's truth value of an \<open>Optional[str]\<close>: \<open>None\<close> and \<open>''\<close> are false.\<close>

definition py_truthy :: "string option \<Rightarrow> bool" where
  "py_truthy v = (case v of None \<Rightarrow> False | Some s \<Rightarrow> s \<noteq> [])"

definition has_pubmed :: "enricher \<Rightarrow> bool" where
  "has_pubmed E = py_truthy (pubmed_email E)"

definition has_elsevier :: "enricher \<Rightarrow> bool" where
  "has_elsevier E = py_truthy (elsevier_api_key E)"

text \<open>\<open>'abstract' in entry and entry['abstract']\<close>.\<close>

definition has_abstract :: "bib_entry \<Rightarrow> bool" where
  "has_abstract entry = py_truthy (entry ''abstract'')"

text \<open>
  The truth value of a payload is that of a \<open>dict\<close>: false when it has no key. (A key the
  model leaves out cannot change a result: every \<open>get_abstract\<close> gives \<open>None\<close> on a
  payload without the modelled keys.)
\<close>

definition cr_nonempty :: "cr_work \<Rightarrow> bool" where
  "cr_nonempty d = (cr_DOI d \<noteq> None \<or> cr_title d \<noteq> None \<or> cr_abstract d \<noteq> None)"

definition s2_nonempty :: "s2_paper \<Rightarrow> bool" where
  "s2_nonempty d = (s2_title d \<noteq> None \<or> s2_paperId d \<noteq> None \<or> s2_abstract d \<noteq> None)"

definition els_nonempty :: "els_doc \<Rightarrow> bool" where
  "els_nonempty d = (els_abstracts_retrieval d \<noteq> None \<or> els_full_text_retrieval d \<noteq> None)"

definition pm_nonempty :: "pm_article \<Rightarrow> bool" where
  "pm_nonempty d = (pm_ArticleTitle d \<noteq> None \<or> pm_AbstractText d \<noteq> None)"

text \<open>
  The test every provider step ends with:
  \<open>if data: abstract = get_abstract(data); if abstract: entry['abstract'] = abstract; return entry\<close>.
  \<open>accepted\<close> is the abstract that is written, if any.
\<close>

definition accepted :: "('d \<Rightarrow> bool) \<Rightarrow> ('d \<Rightarrow> string option) \<Rightarrow> 'd option \<Rightarrow> string option" where
  "accepted nonempty get_abstract data =
     (case data of
        None \<Rightarrow> None
      | Some d \<Rightarrow>
          if nonempty d
          then (case get_abstract d of
                  None \<Rightarrow> None
                | Some abstract \<Rightarrow> if abstract \<noteq> [] then Some abstract else None)
          else None)"

text \<open>
  The first block of \<open>enrich_entry\<close> after the two early returns: with no DOI and a title,
  search Crossref by title and keep the DOI of the match, in \<open>doi\<close> and in the entry.
\<close>

definition discover_doi :: "network \<Rightarrow> bib_entry \<Rightarrow> trace \<Rightarrow> string option \<times> bib_entry \<times> trace" where
  "discover_doi net entry tr =
     (let doi = entry ''doi''
      in if py_truthy doi then (doi, entry, tr)
         else (case entry ''title'' of
                 None \<Rightarrow> (doi, entry, tr)
               | Some title \<Rightarrow>
                   (case crossref_search_by_title net title default_min_similarity tr of
                      (None, tr') \<Rightarrow> (doi, entry, tr')
                    | (Some crossref_data, tr') \<Rightarrow>
                        (case cr_DOI crossref_data of
                           None \<Rightarrow> (doi, entry, tr')
                         | Some found \<Rightarrow> (Some found, entry(''doi'' \<mapsto> found), tr')))))"

text \<open>
  The eight provider steps, each giving the abstract it accepts. A step by DOI runs when
  \<open>doi\<close> is true, the PubMed step by PMID when the entry has the key \<open>pmid\<close>, a step by
  title when the entry has the key \<open>title\<close>.
\<close>

definition elsevier_doi_step :: "network \<Rightarrow> string option \<Rightarrow> trace \<Rightarrow> string option \<times> trace" where
  "elsevier_doi_step net doi tr =
     (case doi of
        None \<Rightarrow> (None, tr)
      | Some d \<Rightarrow>
          if d = [] then (None, tr)
          else (case elsevier_get_by_doi net d tr of
                  (elsevier_data, tr') \<Rightarrow> (accepted els_nonempty elsevier_get_abstract elsevier_data, tr')))"

definition elsevier_title_step :: "network \<Rightarrow> bib_entry \<Rightarrow> trace \<Rightarrow> string option \<times> trace" where
  "elsevier_title_step net entry tr =
     (case entry ''title'' of
        None \<Rightarrow> (None, tr)
      | Some title \<Rightarrow>
          (case elsevier_search_by_title net title default_min_similarity tr of
             (elsevier_data, tr') \<Rightarrow> (accepted els_nonempty elsevier_get_abstract elsevier_data, tr')))"

definition pubmed_pmid_step :: "network \<Rightarrow> bib_entry \<Rightarrow> trace \<Rightarrow> string option \<times> trace" where
  "pubmed_pmid_step net entry tr =
     (case entry ''pmid'' of
        None \<Rightarrow> (None, tr)
      | Some pmid \<Rightarrow>
          (case pubmed_get_by_pmid net pmid tr of
             (pubmed_data, tr') \<Rightarrow> (accepted pm_nonempty pubmed_get_abstract pubmed_data, tr')))"

definition pubmed_title_step :: "network \<Rightarrow> bib_entry \<Rightarrow> trace \<Rightarrow> string option \<times> trace" where
  "pubmed_title_step net entry tr =
     (case entry ''title'' of
        None \<Rightarrow> (None, tr)
      | Some title \<Rightarrow>
          (case pubmed_search_by_title net title default_min_similarity tr of
             (pubmed_data, tr') \<Rightarrow> (accepted pm_nonempty pubmed_get_abstract pubmed_data, tr')))"

definition crossref_doi_step :: "network \<Rightarrow> string option \<Rightarrow> trace \<Rightarrow> string option \<times> trace" where
  "crossref_doi_step net doi tr =
     (case doi of
        None \<Rightarrow> (None, tr)
      | Some d \<Rightarrow>
          if d = [] then (None, tr)
          else (case crossref_get_by_doi net d tr of
                  (crossref_data, tr') \<Rightarrow> (accepted cr_nonempty crossref_get_abstract crossref_data, tr')))"

definition crossref_title_step :: "network \<Rightarrow> bib_entry \<Rightarrow> trace \<Rightarrow> string option \<times> trace" where
  "crossref_title_step net entry tr =
     (case entry ''title'' of
        None \<Rightarrow> (None, tr)
      | Some title \<Rightarrow>
          (case crossref_search_by_title net title default_min_similarity tr of
             (crossref_data, tr') \<Rightarrow> (accepted cr_nonempty crossref_get_abstract crossref_data, tr')))"

definition s2_doi_step :: "network \<Rightarrow> string option \<Rightarrow> trace \<Rightarrow> string option \<times> trace" where
  "s2_doi_step net doi tr =
     (case doi of
        None \<Rightarrow> (None, tr)
      | Some d \<Rightarrow>
          if d = [] then (None, tr)
          else (case s2_get_by_doi net d tr of
                  (ss_data, tr') \<Rightarrow> (accepted s2_nonempty s2_get_abstract ss_data, tr')))"

definition s2_title_step :: "network \<Rightarrow> bib_entry \<Rightarrow> trace \<Rightarrow> string option \<times> trace" where
  "s2_title_step net entry tr =
     (case entry ''title'' of
        None \<Rightarrow> (None, tr)
      | Some title \<Rightarrow>
          (case s2_search_by_title net title tr of
             (ss_data, tr') \<Rightarrow> (accepted s2_nonempty s2_get_abstract ss_data, tr')))"

text \<open>
  \<open>otherwise\<close> is the \<open>return entry\<close> inside a step: an accepted abstract ends the
  function, anything else falls through to the code that follows.
\<close>

definition otherwise ::
  "string option \<times> trace \<Rightarrow> (trace \<Rightarrow> string option \<times> trace) \<Rightarrow> string option \<times> trace" where
  "otherwise r rest = (case r of (Some abstract, tr) \<Rightarrow> (Some abstract, tr) | (None, tr) \<Rightarrow> rest tr)"

definition enrich_entry ::
  "enricher \<Rightarrow> network \<Rightarrow> bib_entry \<Rightarrow> bool \<Rightarrow> bool \<Rightarrow> bool \<Rightarrow> bool \<Rightarrow> trace \<Rightarrow> bib_entry \<times> trace" where
  "enrich_entry E net entry use_semantic_scholar use_pubmed use_elsevier dry_run tr =
     (if dry_run then (entry, tr)
      else if has_abstract entry then (entry, tr)
      else
        (case discover_doi net entry tr of
           (doi, entry1, tr1) \<Rightarrow>
             (case
                otherwise
                  (if use_elsevier \<and> has_elsevier E
                   then otherwise (elsevier_doi_step net doi tr1) (elsevier_title_step net entry1)
                   else (None, tr1))
                  (\<lambda>tr2.
                     otherwise
                       (if use_pubmed \<and> has_pubmed E
                        then otherwise (pubmed_pmid_step net entry1 tr2) (pubmed_title_step net entry1)
                        else (None, tr2))
                       (\<lambda>tr3.
                          otherwise
                            (otherwise (crossref_doi_step net doi tr3) (crossref_title_step net entry1))
                            (\<lambda>tr4.
                               if use_semantic_scholar
                               then otherwise (s2_doi_step net doi tr4) (s2_title_step net entry1)
                               else (None, tr4))))
              of
                (Some abstract, tr') \<Rightarrow> (entry1(''abstract'' \<mapsto> abstract), tr')
              | (None, tr') \<Rightarrow> (entry1, tr'))))"

text \<open>
  \<open>enrich_file\<close> works on the entries \<open>BibIO.load_bibtex\<close> loaded. It gives the statistics,
  what it passed to \<open>BibIO.save_bibtex\<close> (\<open>None\<close> when it did not save) and the trace.
\<close>

record stats =
  st_total :: nat
  st_enriched :: nat
  st_failed :: nat
  st_already_had_abstract :: nat

fun process_entries ::
  "enricher \<Rightarrow> network \<Rightarrow> bool \<Rightarrow> bool \<Rightarrow> bool \<Rightarrow> bool \<Rightarrow> bib_entry list \<Rightarrow> stats \<Rightarrow> trace
     \<Rightarrow> bib_entry list \<times> stats \<times> trace" where
  "process_entries E net use_semantic_scholar use_pubmed use_elsevier dry_run [] st tr = ([], st, tr)"
| "process_entries E net use_semantic_scholar use_pubmed use_elsevier dry_run (entry # entries) st tr =
     (let had_abstract = has_abstract entry
      in case enrich_entry E net entry use_semantic_scholar use_pubmed use_elsevier dry_run tr of
           (enriched_entry, tr') \<Rightarrow>
             (case process_entries E net use_semantic_scholar use_pubmed use_elsevier dry_run entries
                     (if had_abstract
                      then st\<lparr>st_already_had_abstract := st_already_had_abstract st + 1\<rparr>
                      else if has_abstract enriched_entry
                      then st\<lparr>st_enriched := st_enriched st + 1\<rparr>
                      else st\<lparr>st_failed := st_failed st + 1\<rparr>)
                     tr' of
                (rest, st', tr'') \<Rightarrow> (enriched_entry # rest, st', tr'')))"

definition enrich_file ::
  "enricher \<Rightarrow> network \<Rightarrow> bib_entry list \<Rightarrow> bool \<Rightarrow> bool \<Rightarrow> bool \<Rightarrow> bool \<Rightarrow> trace
     \<Rightarrow> stats \<times> bib_entry list option \<times> trace" where
  "enrich_file E net entries use_semantic_scholar use_pubmed use_elsevier dry_run tr =
     (case process_entries E net use_semantic_scholar use_pubmed use_elsevier dry_run entries
             \<lparr>st_total = length entries, st_enriched = 0, st_failed = 0, st_already_had_abstract = 0\<rparr>
             tr of
        (entries', st, tr') \<Rightarrow> (st, if dry_run then None else Some entries', tr'))"

section \<open>The fallback policy as an ordered list of provider steps\<close>

text \<open>
  The specification's reading of the engine, to compare \<open>enrich_entry\<close> with: every
  provider offers a lookup by identifier and a search by title that give a payload, one
  function extracts the abstract of a payload, and the engine walks a list of steps until
  one yields an abstract that is not empty.
\<close>

datatype lookup = ByIdentifier | ByTitle

datatype payload =
    ElsevierData els_doc
  | PubMedData pm_article
  | CrossrefData cr_work
  | S2Data s2_paper

fun extract_abstract :: "payload \<Rightarrow> string option" where
  "extract_abstract (ElsevierData d) = elsevier_get_abstract d"
| "extract_abstract (PubMedData d) = pubmed_get_abstract d"
| "extract_abstract (CrossrefData d) = crossref_get_abstract d"
| "extract_abstract (S2Data d) = s2_get_abstract d"

fun payload_nonempty :: "payload \<Rightarrow> bool" where
  "payload_nonempty (ElsevierData d) = els_nonempty d"
| "payload_nonempty (PubMedData d) = pm_nonempty d"
| "payload_nonempty (CrossrefData d) = cr_nonempty d"
| "payload_nonempty (S2Data d) = s2_nonempty d"

text \<open>
  A step is skipped (no request, no payload) when what it looks up by is missing: a true
  \<open>doi\<close>, the key \<open>pmid\<close> for PubMed, the key \<open>title\<close>.
\<close>

fun fetch ::
  "network \<Rightarrow> bib_entry \<Rightarrow> string option \<Rightarrow> provider \<times> lookup \<Rightarrow> trace \<Rightarrow> payload option \<times> trace" where
  "fetch net entry doi (Elsevier, ByIdentifier) tr =
     (case doi of
        None \<Rightarrow> (None, tr)
      | Some d \<Rightarrow> if d = [] then (None, tr)
                  else apfst (map_option ElsevierData) (elsevier_get_by_doi net d tr))"
| "fetch net entry doi (Elsevier, ByTitle) tr =
     (case entry ''title'' of
        None \<Rightarrow> (None, tr)
      | Some title \<Rightarrow>
          apfst (map_option ElsevierData) (elsevier_search_by_title net title default_min_similarity tr))"
| "fetch net entry doi (PubMed, ByIdentifier) tr =
     (case entry ''pmid'' of
        None \<Rightarrow> (None, tr)
      | Some pmid \<Rightarrow> apfst (map_option PubMedData) (pubmed_get_by_pmid net pmid tr))"
| "fetch net entry doi (PubMed, ByTitle) tr =
     (case entry ''title'' of
        None \<Rightarrow> (None, tr)
      | Some title \<Rightarrow>
          apfst (map_option PubMedData) (pubmed_search_by_title net title default_min_similarity tr))"
| "fetch net entry doi (Crossref, ByIdentifier) tr =
     (case doi of
        None \<Rightarrow> (None, tr)
      | Some d \<Rightarrow> if d = [] then (None, tr)
                  else apfst (map_option CrossrefData) (crossref_get_by_doi net d tr))"
| "fetch net entry doi (Crossref, ByTitle) tr =
     (case entry ''title'' of
        None \<Rightarrow> (None, tr)
      | Some title \<Rightarrow>
          apfst (map_option CrossrefData) (crossref_search_by_title net title default_min_similarity tr))"
| "fetch net entry doi (SemanticScholar, ByIdentifier) tr =
     (case doi of
        None \<Rightarrow> (None, tr)
      | Some d \<Rightarrow> if d = [] then (None, tr)
                  else apfst (map_option S2Data) (s2_get_by_doi net d tr))"
| "fetch net entry doi (SemanticScholar, ByTitle) tr =
     (case entry ''title'' of
        None \<Rightarrow> (None, tr)
      | Some title \<Rightarrow> apfst (map_option S2Data) (s2_search_by_title net title tr))"

definition run_step ::
  "network \<Rightarrow> bib_entry \<Rightarrow> string option \<Rightarrow> provider \<times> lookup \<Rightarrow> trace \<Rightarrow> string option \<times> trace" where
  "run_step net entry doi step tr =
     (case fetch net entry doi step tr of
        (data, tr') \<Rightarrow> (accepted payload_nonempty extract_abstract data, tr'))"

text \<open>The first step of the list that yields wins; the steps after it are not run.\<close>

fun first_yield ::
  "network \<Rightarrow> bib_entry \<Rightarrow> string option \<Rightarrow> (provider \<times> lookup) list \<Rightarrow> trace
     \<Rightarrow> string option \<times> trace" where
  "first_yield net entry doi [] tr = (None, tr)"
| "first_yield net entry doi (step # steps) tr =
     (case run_step net entry doi step tr of
        (Some abstract, tr') \<Rightarrow> (Some abstract, tr')
      | (None, tr') \<Rightarrow> first_yield net entry doi steps tr')"

text \<open>
  Which providers a call of \<open>enrich_entry\<close> may use: the three switches, and the two
  clients that exist only with their credential. Crossref has no switch.
\<close>

fun enabled :: "enricher \<Rightarrow> bool \<Rightarrow> bool \<Rightarrow> bool \<Rightarrow> provider \<Rightarrow> bool" where
  "enabled E use_semantic_scholar use_pubmed use_elsevier Elsevier = (use_elsevier \<and> has_elsevier E)"
| "enabled E use_semantic_scholar use_pubmed use_elsevier PubMed = (use_pubmed \<and> has_pubmed E)"
| "enabled E use_semantic_scholar use_pubmed use_elsevier Crossref = True"
| "enabled E use_semantic_scholar use_pubmed use_elsevier SemanticScholar = use_semantic_scholar"

section \<open>Record cleaner (\<open>BibTeXCleaner.clean_abstract\<close>)\<close>

text \<open>
  Three steps of \<open>clean_abstract\<close> consult tables of the Python library: the character
  references of \<open>html.unescape\<close> and the Unicode normal forms NFKC and NFKD. They are
  parameters of the model. Where the library's answer does not depend on a table the model
  gives it: \<open>html.unescape\<close> returns a string without \<open>&\<close> as it is, and a string of
  ASCII characters is its own normal form.
\<close>

record text_tables =
  charrefs :: "string \<Rightarrow> string"
  nfkc :: "string \<Rightarrow> string"
  nfkd :: "string \<Rightarrow> string"

definition is_ascii :: "char \<Rightarrow> bool" where
  "is_ascii c = ((of_char c :: nat) < 128)"

definition html_unescape :: "text_tables \<Rightarrow> string \<Rightarrow> string" where
  "html_unescape lib s = (if CHR ''&'' \<notin> set s then s else charrefs lib s)"

definition normalize_nfkc :: "text_tables \<Rightarrow> string \<Rightarrow> string" where
  "normalize_nfkc lib s = (if list_all is_ascii s then s else nfkc lib s)"

lemma length_dropWhile_tl: "length (tl (dropWhile P xs)) < Suc (length xs)"
  using length_dropWhile_le[of P xs] by simp

text \<open>
  \<open>re.sub(r'<[^>]+>', ' ', text)\<close>: a \<open><\<close>, at least one character other than \<open>>\<close>, and
  the next \<open>>\<close> become one space.
\<close>

function strip_tags :: "string \<Rightarrow> string" where
  "strip_tags [] = []"
| "strip_tags (c # cs) =
     (if c = CHR ''<'' \<and> takeWhile (\<lambda>x. x \<noteq> CHR ''>'') cs \<noteq> []
           \<and> dropWhile (\<lambda>x. x \<noteq> CHR ''>'') cs \<noteq> []
      then CHR '' '' # strip_tags (tl (dropWhile (\<lambda>x. x \<noteq> CHR ''>'') cs))
      else c # strip_tags cs)"
  by pat_completeness auto
termination
proof (relation "measure length", goal_cases)
  case 1
  show ?case by simp
next
  case (2 c cs)
  show ?case using length_dropWhile_tl[of "\<lambda>x. x \<noteq> CHR ''>''" cs] by simp
next
  case (3 c cs)
  show ?case by simp
qed

definition is_ascii_letter :: "char \<Rightarrow> bool" where
  "is_ascii_letter c =
     (let n = (of_char c :: nat) in (65 \<le> n \<and> n \<le> 90) \<or> (97 \<le> n \<and> n \<le> 122))"

text \<open>
  \<open>re.sub(r'\\[a-zA-Z]+(\{[^}]*\})?', ' ', text)\<close>: a backslash, the letters after it
  (at least one) and, if a \<open>{\<close> follows them and a \<open>}\<close> closes it, the braces with
  what they hold, become one space.
\<close>

definition after_command :: "string \<Rightarrow> string" where
  "after_command cs =
     (let rest = dropWhile is_ascii_letter cs
      in case rest of
           [] \<Rightarrow> rest
         | b # inner \<Rightarrow>
             if b = CHR ''{'' \<and> dropWhile (\<lambda>x. x \<noteq> CHR ''}'') inner \<noteq> []
             then tl (dropWhile (\<lambda>x. x \<noteq> CHR ''}'') inner)
             else rest)"

lemma length_after_command: "length (after_command cs) < Suc (length cs)"
proof -
  have a: "length (dropWhile is_ascii_letter cs) \<le> length cs"
    by (rule length_dropWhile_le)
  have b: "length (tl (dropWhile P inner)) \<le> length inner" for P and inner :: string
    using length_dropWhile_le[of P inner] by simp
  show ?thesis
  proof (cases "dropWhile is_ascii_letter cs")
    case Nil
    show ?thesis unfolding after_command_def Let_def Nil by simp
  next
    case (Cons x inner)
    with a have "length inner < length cs" by simp
    with b[of "\<lambda>x. x \<noteq> CHR ''}''" inner] show ?thesis
      unfolding after_command_def Let_def Cons by simp
  qed
qed

function strip_latex :: "string \<Rightarrow> string" where
  "strip_latex [] = []"
| "strip_latex (c # cs) =
     (if c = CHR 0x5C \<and> takeWhile is_ascii_letter cs \<noteq> []
      then CHR '' '' # strip_latex (after_command cs)
      else c # strip_latex cs)"
  by pat_completeness auto
termination
proof (relation "measure length", goal_cases)
  case 1
  show ?case by simp
next
  case (2 c cs)
  show ?case using length_after_command[of cs] by simp
next
  case (3 c cs)
  show ?case by simp
qed

text \<open>\<open>re.sub(r'\s+', ' ', text)\<close>: every run of whitespace becomes one space.\<close>

fun collapse_whitespace :: "string \<Rightarrow> string" where
  "collapse_whitespace [] = []"
| "collapse_whitespace [c] = (if py_isspace c then [CHR '' ''] else [c])"
| "collapse_whitespace (c # d # cs) =
     (if py_isspace c then (if py_isspace d then collapse_whitespace (d # cs)
                            else CHR '' '' # collapse_whitespace (d # cs))
      else c # collapse_whitespace (d # cs))"

text \<open>The class \<open>[\x00-\x08\x0B\x0C\x0E-\x1F\x7F]\<close>.\<close>

definition is_control :: "char \<Rightarrow> bool" where
  "is_control c =
     (let n = (of_char c :: nat)
      in n \<le> 8 \<or> n = 11 \<or> n = 12 \<or> (14 \<le> n \<and> n \<le> 31) \<or> n = 127)"

text \<open>
  \<open>re.sub(r'[^\x00-\x7F]+', lambda m: unicodedata.normalize('NFKD', m.group()), text)\<close>:
  every maximal run of characters outside ASCII is replaced by its NFKD form.
\<close>

function fold_non_ascii :: "text_tables \<Rightarrow> string \<Rightarrow> string" where
  "fold_non_ascii lib [] = []"
| "fold_non_ascii lib (c # cs) =
     (if is_ascii c then c # fold_non_ascii lib cs
      else nfkd lib (c # takeWhile (\<lambda>x. \<not> is_ascii x) cs)
           @ fold_non_ascii lib (dropWhile (\<lambda>x. \<not> is_ascii x) cs))"
  by pat_completeness auto
termination
  by (relation "measure (\<lambda>(lib, s). length s)") (simp_all add: length_dropWhile_le le_imp_less_Suc)

text \<open>
  \<open>re.sub(r'^\s*[\[\{\(]|\[\{\)]\s*$', '', text)\<close>. The first alternative matches at the
  start only: whitespace and one opening bracket. The second is the four characters
  \<open>[{)]\<close> followed by whitespace up to the end; \<open>drop_closing\<close> looks for it from left to
  right in what the first alternative left.
\<close>

fun drop_closing :: "string \<Rightarrow> string" where
  "drop_closing [] = []"
| "drop_closing (c # cs) =
     (if take 4 (c # cs) = ''[{)]'' \<and> list_all py_isspace (drop 4 (c # cs)) then []
      else c # drop_closing cs)"

definition strip_brackets :: "string \<Rightarrow> string" where
  "strip_brackets s =
     (case dropWhile py_isspace s of
        [] \<Rightarrow> drop_closing s
      | b # rest \<Rightarrow>
          if b = CHR ''['' \<or> b = CHR ''{'' \<or> b = CHR ''('' then drop_closing rest
          else drop_closing s)"

text \<open>\<open>text.strip()\<close>.\<close>

definition py_strip :: "string \<Rightarrow> string" where
  "py_strip s = rev (dropWhile py_isspace (rev (dropWhile py_isspace s)))"

definition clean_abstract :: "text_tables \<Rightarrow> string option \<Rightarrow> string option" where
  "clean_abstract lib text =
     (case text of
        None \<Rightarrow> None
      | Some t \<Rightarrow>
          if t = [] then None
          else Some (py_strip (strip_brackets (fold_non_ascii lib
                 (filter (\<lambda>c. \<not> is_control c)
                    (collapse_whitespace
                       (map (\<lambda>c. if c = CHR 0x0A then CHR '' '' else c)
                          (normalize_nfkc lib
                             (strip_latex (strip_tags (html_unescape lib t)))))))))))"

text \<open>Tables that are never consulted on ASCII text without \<open>&\<close>.\<close>

definition no_tables :: text_tables where
  "no_tables = \<lparr>charrefs = (\<lambda>s. s), nfkc = (\<lambda>s. s), nfkd = (\<lambda>s. s)\<rparr>"

section \<open>Sample inputs\<close>

text \<open>A network on which every request fails, and an engine with no credentials.\<close>

definition offline :: network where
  "offline =
     \<lparr>crossref_work = (\<lambda>tr doi. Failed), crossref_query = (\<lambda>tr q. Failed),
      s2_paper_get = (\<lambda>tr i. Failed), s2_search = (\<lambda>tr q. Failed),
      elsevier_abstract = (\<lambda>tr doi. Failed), scopus_search = (\<lambda>tr q. Failed),
      entrez_fetch = (\<lambda>tr ids. Failed), entrez_search = (\<lambda>tr q. Failed)\<rparr>"

definition no_credentials :: enricher where
  "no_credentials = \<lparr>pubmed_email = None, elsevier_api_key = None\<rparr>"

text \<open>
  \<open>finds_doi\<close>: the Crossref search knows the title and its DOI, nobody has an abstract.
  \<open>crossref_markup\<close>: Crossref answers a DOI with an abstract in JATS markup.
  \<open>two_sources\<close>: Elsevier and Crossref both answer a DOI with an abstract.
\<close>

definition finds_doi :: network where
  "finds_doi = offline\<lparr>crossref_query := (\<lambda>tr q. Reply (Some
      [\<lparr>cr_DOI = Some ''10.1/x'', cr_title = Some (TitleList [''T'']), cr_abstract = None\<rparr>]))\<rparr>"

definition crossref_markup :: network where
  "crossref_markup = offline\<lparr>crossref_work := (\<lambda>tr doi. Reply
      \<lparr>cr_DOI = Some doi, cr_title = None, cr_abstract = Some ''<p>Foo  Bar</p>''\<rparr>)\<rparr>"

definition two_sources :: network where
  "two_sources = offline
     \<lparr>crossref_work := (\<lambda>tr doi. Reply
        \<lparr>cr_DOI = Some doi, cr_title = None, cr_abstract = Some ''From Crossref.''\<rparr>),
      elsevier_abstract := (\<lambda>tr doi. Reply
        \<lparr>els_abstracts_retrieval = Some (Coredata (Some ''From Elsevier.'')),
         els_full_text_retrieval = None\<rparr>)\<rparr>"

definition all_credentials :: enricher where
  "all_credentials = \<lparr>pubmed_email = Some ''me@example.org'', elsevier_api_key = Some ''key''\<rparr>"

section \<open>The batch driver: early returns and statistics\<close>

lemma enrich_entry_dry_run:
  "enrich_entry E net entry us up ue True tr = (entry, tr)"
  by (simp add: enrich_entry_def)

lemma enrich_entry_has_abstract:
  "has_abstract entry \<Longrightarrow> enrich_entry E net entry us up ue dry tr = (entry, tr)"
  by (simp add: enrich_entry_def)

lemma process_entries_dry_run:
  "\<exists>st'. process_entries E net us up ue True entries st tr = (entries, st', tr)"
proof (induction entries arbitrary: st)
  case Nil
  show ?case by simp
next
  case (Cons entry entries)
  let ?st = "if has_abstract entry
               then st\<lparr>st_already_had_abstract := st_already_had_abstract st + 1\<rparr>
               else st\<lparr>st_failed := st_failed st + 1\<rparr>"
  from Cons.IH[of ?st] obtain st' where
    "process_entries E net us up ue True entries ?st tr = (entries, st', tr)" by blast
  then show ?case
    by (auto simp: enrich_entry_dry_run Let_def)
qed

lemma process_entries_all_have:
  "list_all has_abstract entries \<Longrightarrow>
   process_entries E net us up ue dry entries st tr =
     (entries, st\<lparr>st_already_had_abstract := st_already_had_abstract st + length entries\<rparr>, tr)"
proof (induction entries arbitrary: st)
  case Nil
  show ?case by simp
next
  case (Cons entry entries)
  then have h: "has_abstract entry" and t: "list_all has_abstract entries" by simp_all
  show ?case
    by (simp add: enrich_entry_has_abstract[OF h] h Cons.IH[OF t])
qed

lemma process_entries_counts:
  "process_entries E net us up ue dry entries st tr = (entries', st', tr') \<Longrightarrow>
   st_total st' = st_total st
   \<and> st_already_had_abstract st' + st_enriched st' + st_failed st'
       = st_already_had_abstract st + st_enriched st + st_failed st + length entries
   \<and> length entries' = length entries"
proof (induction entries arbitrary: st tr entries' st' tr')
  case Nil
  then show ?case by simp
next
  case (Cons entry entries)
  obtain e1 tr1 where ee: "enrich_entry E net entry us up ue dry tr = (e1, tr1)"
    by (cases "enrich_entry E net entry us up ue dry tr") auto
  let ?st = "if has_abstract entry
               then st\<lparr>st_already_had_abstract := st_already_had_abstract st + 1\<rparr>
               else if has_abstract e1 then st\<lparr>st_enriched := st_enriched st + 1\<rparr>
               else st\<lparr>st_failed := st_failed st + 1\<rparr>"
  obtain rest st2 tr2 where
    pe: "process_entries E net us up ue dry entries ?st tr1 = (rest, st2, tr2)"
    by (cases "process_entries E net us up ue dry entries ?st tr1") auto
  from Cons.prems ee pe have eq: "entries' = e1 # rest" "st' = st2" "tr' = tr2"
    by (simp_all add: Let_def)
  from Cons.IH[OF pe] show ?case
    unfolding eq by (auto split: if_splits)
qed

text \<open>
  C5. A record whose \<open>abstract\<close> is present and not empty comes back from \<open>enrich_entry\<close>
  unchanged and the trace does not grow: no provider was called. So a batch in which every
  record has an abstract (the output of a run that enriched everything) is processed with
  no request at all, and \<open>already_had_abstract\<close> equals \<open>total\<close>, the number of records;
  nothing is counted as enriched or failed.
\<close>

theorem already_had_abstract_idempotent:
  "(has_abstract entry \<longrightarrow>
      enrich_entry E net entry use_semantic_scholar use_pubmed use_elsevier dry_run tr = (entry, tr))
   \<and> ((\<forall>e \<in> set entries. has_abstract e) \<longrightarrow>
      enrich_file E net entries use_semantic_scholar use_pubmed use_elsevier dry_run tr =
        (\<lparr>st_total = length entries, st_enriched = 0, st_failed = 0,
          st_already_had_abstract = length entries\<rparr>,
         if dry_run then None else Some entries, tr))"
proof (intro conjI impI)
  assume "has_abstract entry"
  then show "enrich_entry E net entry use_semantic_scholar use_pubmed use_elsevier dry_run tr = (entry, tr)"
    by (rule enrich_entry_has_abstract)
next
  assume "\<forall>e \<in> set entries. has_abstract e"
  then have "list_all has_abstract entries" by (simp add: list_all_iff)
  from process_entries_all_have[OF this]
  show "enrich_file E net entries use_semantic_scholar use_pubmed use_elsevier dry_run tr =
        (\<lparr>st_total = length entries, st_enriched = 0, st_failed = 0,
          st_already_had_abstract = length entries\<rparr>,
         if dry_run then None else Some entries, tr)"
    by (simp add: enrich_file_def)
qed

theorem already_had_abstract_idempotent_witness:
  "has_abstract [''title'' \<mapsto> ''T'', ''abstract'' \<mapsto> ''Known.'']
   \<and> enrich_entry no_credentials offline [''title'' \<mapsto> ''T'', ''abstract'' \<mapsto> ''Known.'']
        True True True False []
      = ([''title'' \<mapsto> ''T'', ''abstract'' \<mapsto> ''Known.''], [])
   \<and> enrich_file no_credentials offline
        [[''title'' \<mapsto> ''T'', ''abstract'' \<mapsto> ''Known.''], [''abstract'' \<mapsto> ''Other.'']]
        True True True False []
      = (\<lparr>st_total = 2, st_enriched = 0, st_failed = 0, st_already_had_abstract = 2\<rparr>,
         Some [[''title'' \<mapsto> ''T'', ''abstract'' \<mapsto> ''Known.''], [''abstract'' \<mapsto> ''Other.'']], [])"
  using already_had_abstract_idempotent
          [of "[''title'' \<mapsto> ''T'', ''abstract'' \<mapsto> ''Known.'']" no_credentials offline
              True True True False "[]"
              "[[''title'' \<mapsto> ''T'', ''abstract'' \<mapsto> ''Known.''], [''abstract'' \<mapsto> ''Other.'']]"]
  by (simp add: has_abstract_def py_truthy_def)

text \<open>
  C9. With \<open>dry_run\<close> true, \<open>enrich_entry\<close> gives back the record as it was and the trace
  as it was (no provider call), and \<open>enrich_file\<close> makes no request, leaves every record as
  it was and does not save.
\<close>

theorem dry_run_no_calls_no_write:
  "enrich_entry E net entry use_semantic_scholar use_pubmed use_elsevier True tr = (entry, tr)
   \<and> (\<exists>st. enrich_file E net entries use_semantic_scholar use_pubmed use_elsevier True tr
              = (st, None, tr))
   \<and> fst (process_entries E net use_semantic_scholar use_pubmed use_elsevier True entries st0 tr)
       = entries"
proof -
  obtain st' where
    "process_entries E net use_semantic_scholar use_pubmed use_elsevier True entries
       \<lparr>st_total = length entries, st_enriched = 0, st_failed = 0, st_already_had_abstract = 0\<rparr> tr
     = (entries, st', tr)"
    using process_entries_dry_run by blast
  then have "enrich_file E net entries use_semantic_scholar use_pubmed use_elsevier True tr
             = (st', None, tr)"
    by (simp add: enrich_file_def)
  moreover obtain st'' where
    "process_entries E net use_semantic_scholar use_pubmed use_elsevier True entries st0 tr
     = (entries, st'', tr)"
    using process_entries_dry_run by blast
  ultimately show ?thesis
    by (auto simp: enrich_entry_dry_run)
qed

text \<open>
  C10. On return from \<open>enrich_file\<close> the three counters add up to \<open>total\<close>, and \<open>total\<close>
  is the number of records loaded: every record was counted once, as already having an
  abstract, as enriched or as failed.
\<close>

theorem stats_partition_total:
  "st_already_had_abstract
       (fst (enrich_file E net entries use_semantic_scholar use_pubmed use_elsevier dry_run tr))
     + st_enriched
       (fst (enrich_file E net entries use_semantic_scholar use_pubmed use_elsevier dry_run tr))
     + st_failed
       (fst (enrich_file E net entries use_semantic_scholar use_pubmed use_elsevier dry_run tr))
   = st_total (fst (enrich_file E net entries use_semantic_scholar use_pubmed use_elsevier dry_run tr))
   \<and> st_total (fst (enrich_file E net entries use_semantic_scholar use_pubmed use_elsevier dry_run tr))
     = length entries"
proof -
  obtain entries' st' tr' where
    pe: "process_entries E net use_semantic_scholar use_pubmed use_elsevier dry_run entries
           \<lparr>st_total = length entries, st_enriched = 0, st_failed = 0, st_already_had_abstract = 0\<rparr> tr
         = (entries', st', tr')"
    by (cases "process_entries E net use_semantic_scholar use_pubmed use_elsevier dry_run entries
           \<lparr>st_total = length entries, st_enriched = 0, st_failed = 0, st_already_had_abstract = 0\<rparr> tr")
       auto
  from process_entries_counts[OF pe] show ?thesis
    by (simp add: enrich_file_def pe)
qed

section \<open>The engine follows the fallback policy\<close>

lemma otherwise_simps:
  "otherwise (None, tr) rest = rest tr"
  "otherwise (Some a, tr) rest = (Some a, tr)"
  by (simp_all add: otherwise_def)

lemma otherwise_assoc:
  "otherwise (otherwise r f) g = otherwise r (\<lambda>tr. otherwise (f tr) g)"
  by (cases r; cases "fst r") (auto simp: otherwise_def)

lemma otherwise_none: "otherwise r (\<lambda>tr. (None, tr)) = r"
  by (cases r; cases "fst r") (auto simp: otherwise_def)

lemma first_yield_Cons:
  "first_yield net entry doi (step # steps) tr =
     otherwise (run_step net entry doi step tr) (first_yield net entry doi steps)"
  by (auto simp: otherwise_def split: prod.splits option.splits)

lemma accepted_None: "accepted ne ga None = None"
  by (simp add: accepted_def)

lemma accepted_payload:
  "accepted payload_nonempty extract_abstract (map_option ElsevierData e) =
     accepted els_nonempty elsevier_get_abstract e"
  "accepted payload_nonempty extract_abstract (map_option PubMedData p) =
     accepted pm_nonempty pubmed_get_abstract p"
  "accepted payload_nonempty extract_abstract (map_option CrossrefData c) =
     accepted cr_nonempty crossref_get_abstract c"
  "accepted payload_nonempty extract_abstract (map_option S2Data s) =
     accepted s2_nonempty s2_get_abstract s"
  by (cases e; cases p; cases c; cases s; simp add: accepted_def)+

lemma run_step_eqs:
  "run_step net entry doi (Elsevier, ByIdentifier) = elsevier_doi_step net doi"
  "run_step net entry doi (Elsevier, ByTitle) = elsevier_title_step net entry"
  "run_step net entry doi (PubMed, ByIdentifier) = pubmed_pmid_step net entry"
  "run_step net entry doi (PubMed, ByTitle) = pubmed_title_step net entry"
  "run_step net entry doi (Crossref, ByIdentifier) = crossref_doi_step net doi"
  "run_step net entry doi (Crossref, ByTitle) = crossref_title_step net entry"
  "run_step net entry doi (SemanticScholar, ByIdentifier) = s2_doi_step net doi"
  "run_step net entry doi (SemanticScholar, ByTitle) = s2_title_step net entry"
  by (auto simp: fun_eq_iff run_step_def elsevier_doi_step_def elsevier_title_step_def
        pubmed_pmid_step_def pubmed_title_step_def crossref_doi_step_def crossref_title_step_def
        s2_doi_step_def s2_title_step_def accepted_payload accepted_None apfst_def map_prod_def
      split: option.splits prod.splits)

lemma enrich_entry_fallback:
  assumes "\<not> dry_run" "\<not> has_abstract entry"
  shows "enrich_entry E net entry use_semantic_scholar use_pubmed use_elsevier dry_run tr =
     (case discover_doi net entry tr of
        (doi, entry1, tr1) \<Rightarrow>
          (case first_yield net entry1 doi
                  (filter (\<lambda>(p, k). enabled E use_semantic_scholar use_pubmed use_elsevier p)
                     [(Elsevier, ByIdentifier), (Elsevier, ByTitle),
                      (PubMed, ByIdentifier), (PubMed, ByTitle),
                      (Crossref, ByIdentifier), (Crossref, ByTitle),
                      (SemanticScholar, ByIdentifier), (SemanticScholar, ByTitle)])
                  tr1 of
             (Some abstract, tr') \<Rightarrow> (entry1(''abstract'' \<mapsto> abstract), tr')
           | (None, tr') \<Rightarrow> (entry1, tr')))"
proof -
  obtain doi entry1 tr1 where d: "discover_doi net entry tr = (doi, entry1, tr1)"
    by (cases "discover_doi net entry tr") auto
  define bE where "bE = (use_elsevier \<and> has_elsevier E)"
  define bP where "bP = (use_pubmed \<and> has_pubmed E)"
  have fy_nil: "first_yield net entry1 doi [] = (\<lambda>tr. (None, tr))"
    by (simp add: fun_eq_iff)
  have plan:
    "filter (\<lambda>(p, k). enabled E use_semantic_scholar use_pubmed use_elsevier p)
       [(Elsevier, ByIdentifier), (Elsevier, ByTitle),
        (PubMed, ByIdentifier), (PubMed, ByTitle),
        (Crossref, ByIdentifier), (Crossref, ByTitle),
        (SemanticScholar, ByIdentifier), (SemanticScholar, ByTitle)]
     = (if bE then [(Elsevier, ByIdentifier), (Elsevier, ByTitle)] else [])
       @ (if bP then [(PubMed, ByIdentifier), (PubMed, ByTitle)] else [])
       @ [(Crossref, ByIdentifier), (Crossref, ByTitle)]
       @ (if use_semantic_scholar then [(SemanticScholar, ByIdentifier), (SemanticScholar, ByTitle)]
          else [])"
    by (simp add: bE_def bP_def)
  have lhs:
    "enrich_entry E net entry use_semantic_scholar use_pubmed use_elsevier dry_run tr =
       (case
          otherwise
            (if bE then otherwise (elsevier_doi_step net doi tr1) (elsevier_title_step net entry1)
             else (None, tr1))
            (\<lambda>tr2.
               otherwise
                 (if bP then otherwise (pubmed_pmid_step net entry1 tr2) (pubmed_title_step net entry1)
                  else (None, tr2))
                 (\<lambda>tr3.
                    otherwise
                      (otherwise (crossref_doi_step net doi tr3) (crossref_title_step net entry1))
                      (\<lambda>tr4.
                         if use_semantic_scholar
                         then otherwise (s2_doi_step net doi tr4) (s2_title_step net entry1)
                         else (None, tr4))))
        of
          (Some abstract, tr') \<Rightarrow> (entry1(''abstract'' \<mapsto> abstract), tr')
        | (None, tr') \<Rightarrow> (entry1, tr'))"
    using assms by (simp add: enrich_entry_def d bE_def bP_def)
  show ?thesis
    unfolding lhs plan d prod.case
    by (cases bE; cases bP; cases use_semantic_scholar)
       (simp_all add: first_yield_Cons[abs_def] fy_nil run_step_eqs
          otherwise_assoc otherwise_none otherwise_simps
          del: first_yield.simps)
qed

section \<open>Which providers a run calls\<close>

text \<open>
  \<open>only_calls S tr tr'\<close>: the trace grew from \<open>tr\<close> to \<open>tr'\<close> and every request added went
  to a provider in \<open>S\<close>.
\<close>

definition only_calls :: "provider set \<Rightarrow> trace \<Rightarrow> trace \<Rightarrow> bool" where
  "only_calls S tr tr' = (\<exists>new. tr' = tr @ new \<and> (\<forall>r. Request r \<in> set new \<longrightarrow> provider_of r \<in> S))"

lemma only_calls_refl: "only_calls S tr tr"
  by (simp add: only_calls_def)

lemma only_calls_trans: "only_calls S a b \<Longrightarrow> only_calls S b c \<Longrightarrow> only_calls S a c"
  unfolding only_calls_def by (metis Un_iff append.assoc set_append)

lemma only_calls_mono: "S \<subseteq> T \<Longrightarrow> only_calls S a b \<Longrightarrow> only_calls T a b"
  unfolding only_calls_def by blast

lemma only_calls_request: "provider_of r \<in> S \<Longrightarrow> only_calls S tr (tr @ [Request r])"
  by (simp add: only_calls_def)

lemma only_calls_sleep: "only_calls S tr (tr @ [Sleep n])"
  by (simp add: only_calls_def)

lemma with_retries_only_calls:
  assumes "\<And>t. only_calls S t (snd (body t))"
  shows "only_calls S tr (snd (with_retries body attempts tr))"
proof (induction attempts arbitrary: tr)
  case Nil
  show ?case by (simp add: only_calls_refl)
next
  case (Cons attempt rest)
  obtain r tr' where b: "body tr = (r, tr')" by (cases "body tr") auto
  have step: "only_calls S tr tr'" using assms[of tr] b by simp
  show ?case
  proof (cases r)
    case Failed
    show ?thesis
    proof (cases "attempt = max_retries - 1")
      case True
      with b Failed step show ?thesis by simp
    next
      case False
      have "only_calls S tr (tr' @ [Sleep (retry_delay * (attempt + 1))])"
        by (rule only_calls_trans[OF step only_calls_sleep])
      from only_calls_trans[OF this Cons.IH] b Failed False show ?thesis by simp
    qed
  next
    case (Reply x)
    with b step show ?thesis by simp
  qed
qed

lemma crossref_get_by_doi_only_calls:
  "only_calls {Crossref} tr (snd (crossref_get_by_doi net doi tr))"
  by (auto simp: crossref_get_by_doi_def only_calls_request split: reply.splits)

lemma crossref_search_by_title_only_calls:
  "only_calls {Crossref} tr (snd (crossref_search_by_title net title ms tr))"
proof -
  let ?body = "\<lambda>t. (crossref_query net t (clean_title title),
                     t @ [Request (CrossrefQuery (clean_title title))])"
  have "only_calls {Crossref} tr (snd (with_retries ?body [0..<max_retries] tr))"
    by (rule with_retries_only_calls) (simp add: only_calls_request)
  then show ?thesis
    by (auto simp: crossref_search_by_title_def Let_def split: prod.splits reply.splits)
qed

lemma s2_get_by_doi_only_calls:
  "only_calls {SemanticScholar} tr (snd (s2_get_by_doi net doi tr))"
proof -
  let ?body = "\<lambda>t. (s2_paper_get net t doi, t @ [Request (S2Paper doi)])"
  have "only_calls {SemanticScholar} tr (snd (with_retries ?body [0..<max_retries] tr))"
    by (rule with_retries_only_calls) (simp add: only_calls_request)
  then show ?thesis
    by (auto simp: s2_get_by_doi_def split: prod.splits reply.splits)
qed

lemma s2_search_by_title_only_calls:
  "only_calls {SemanticScholar} tr (snd (s2_search_by_title net title tr))"
proof -
  let ?body = "\<lambda>t. (s2_search net t (clean_title title),
                     t @ [Request (S2Search (clean_title title))])"
  obtain r tr' where w: "with_retries ?body [0..<max_retries] tr = (r, tr')"
    by (cases "with_retries ?body [0..<max_retries] tr") auto
  have "only_calls {SemanticScholar} tr (snd (with_retries ?body [0..<max_retries] tr))"
    by (rule with_retries_only_calls) (simp add: only_calls_request)
  then have a: "only_calls {SemanticScholar} tr tr'" using w by simp
  have b: "only_calls {SemanticScholar} tr (tr' @ [Request (S2Paper i)])" for i
    by (rule only_calls_trans[OF a]) (simp add: only_calls_request)
  show ?thesis
    using a b
    by (auto simp: s2_search_by_title_def Let_def w split: prod.splits reply.splits option.splits)
qed

lemma elsevier_get_by_doi_only_calls:
  "only_calls {Elsevier} tr (snd (elsevier_get_by_doi net doi tr))"
proof -
  let ?body = "\<lambda>t. (elsevier_abstract net t doi, t @ [Request (ElsevierAbstract doi)])"
  have "only_calls {Elsevier} tr (snd (with_retries ?body [0..<max_retries] tr))"
    by (rule with_retries_only_calls) (simp add: only_calls_request)
  then show ?thesis
    by (auto simp: elsevier_get_by_doi_def split: prod.splits reply.splits)
qed

lemma elsevier_search_attempt_only_calls:
  "only_calls {Elsevier} tr (snd (elsevier_search_attempt net title ms tr))"
proof -
  let ?tr1 = "tr @ [Request (ScopusSearch title)]"
  have a: "only_calls {Elsevier} tr ?tr1"
    by (simp add: only_calls_request)
  have b: "only_calls {Elsevier} tr (snd (elsevier_get_by_doi net doi ?tr1))" for doi
    by (rule only_calls_trans[OF a elsevier_get_by_doi_only_calls])
  have "snd (elsevier_search_attempt net title ms tr) = ?tr1
        \<or> (\<exists>doi. snd (elsevier_search_attempt net title ms tr)
                    = snd (elsevier_get_by_doi net doi ?tr1))"
    by (simp add: elsevier_search_attempt_def split: prod.splits reply.splits option.splits)
       (metis snd_conv)
  with a b show ?thesis by auto
qed

lemma elsevier_search_by_title_only_calls:
  "only_calls {Elsevier} tr (snd (elsevier_search_by_title net title ms tr))"
proof -
  have "only_calls {Elsevier} tr
          (snd (with_retries (elsevier_search_attempt net title ms) [0..<max_retries] tr))"
    by (rule with_retries_only_calls) (rule elsevier_search_attempt_only_calls)
  then show ?thesis
    by (auto simp: elsevier_search_by_title_def split: prod.splits reply.splits)
qed

lemma pubmed_fetch_attempt_only_calls:
  "only_calls {PubMed} tr (snd (pubmed_fetch_attempt net pmid tr))"
  by (auto simp: pubmed_fetch_attempt_def only_calls_request split: reply.splits list.splits)

lemma pubmed_get_by_pmid_only_calls:
  "only_calls {PubMed} tr (snd (pubmed_get_by_pmid net pmid tr))"
proof -
  have "only_calls {PubMed} tr (snd (with_retries (pubmed_fetch_attempt net pmid) [0..<max_retries] tr))"
    by (rule with_retries_only_calls) (rule pubmed_fetch_attempt_only_calls)
  then show ?thesis
    by (auto simp: pubmed_get_by_pmid_def split: prod.splits reply.splits)
qed

lemma pubmed_search_attempt_only_calls:
  "only_calls {PubMed} tr (snd (pubmed_search_attempt net title ms tr))"
proof -
  have a: "only_calls {PubMed} tr (tr @ [Request (EntrezSearch q)])" for q
    by (simp add: only_calls_request)
  have b: "only_calls {PubMed} tr (tr @ [Request (EntrezSearch q)] @ [Request (EntrezFetch ids)])" for q ids
    by (simp add: only_calls_def)
  show ?thesis
    using a b
    by (auto simp: pubmed_search_attempt_def Let_def split: prod.splits reply.splits option.splits)
qed

lemma pubmed_search_by_title_only_calls:
  "only_calls {PubMed} tr (snd (pubmed_search_by_title net title ms tr))"
proof -
  have "only_calls {PubMed} tr
          (snd (with_retries (pubmed_search_attempt net title ms) [0..<max_retries] tr))"
    by (rule with_retries_only_calls) (rule pubmed_search_attempt_only_calls)
  then show ?thesis
    by (auto simp: pubmed_search_by_title_def split: prod.splits reply.splits)
qed

lemma fetch_only_calls: "only_calls {fst step} tr (snd (fetch net entry doi step tr))"
proof (cases step)
  case (Pair p k)
  show ?thesis
    unfolding Pair
    by (cases p; cases k)
       (auto simp: only_calls_refl crossref_get_by_doi_only_calls crossref_search_by_title_only_calls
          s2_get_by_doi_only_calls s2_search_by_title_only_calls elsevier_get_by_doi_only_calls
          elsevier_search_by_title_only_calls pubmed_get_by_pmid_only_calls pubmed_search_by_title_only_calls
        split: option.splits)
qed

lemma run_step_only_calls: "only_calls {fst step} tr (snd (run_step net entry doi step tr))"
  using fetch_only_calls[of step tr net entry doi]
  by (auto simp: run_step_def split: prod.splits)

lemma first_yield_only_calls:
  "\<forall>step \<in> set steps. fst step \<in> S \<Longrightarrow> only_calls S tr (snd (first_yield net entry doi steps tr))"
proof (induction steps arbitrary: tr)
  case Nil
  show ?case by (simp add: only_calls_refl)
next
  case (Cons step steps)
  obtain r tr' where rs: "run_step net entry doi step tr = (r, tr')"
    by (cases "run_step net entry doi step tr") auto
  have "only_calls {fst step} tr tr'"
    using run_step_only_calls[of step tr net entry doi] rs by simp
  then have a: "only_calls S tr tr'"
    by (rule only_calls_mono[rotated]) (use Cons.prems in simp)
  have b: "only_calls S tr' (snd (first_yield net entry doi steps tr'))"
    by (rule Cons.IH) (use Cons.prems in simp)
  show ?case
    using a only_calls_trans[OF a b] rs by (cases r) simp_all
qed

lemma discover_doi_only_calls: "only_calls {Crossref} tr (snd (snd (discover_doi net entry tr)))"
proof (cases "py_truthy (entry ''doi'')")
  case True
  then show ?thesis by (simp add: discover_doi_def only_calls_refl)
next
  case False
  show ?thesis
  proof (cases "entry ''title''")
    case None
    with False show ?thesis by (simp add: discover_doi_def only_calls_refl)
  next
    case (Some title)
    obtain r tr' where c: "crossref_search_by_title net title default_min_similarity tr = (r, tr')"
      by (cases "crossref_search_by_title net title default_min_similarity tr") auto
    have "only_calls {Crossref} tr tr'"
      using crossref_search_by_title_only_calls[of tr net title default_min_similarity] c by simp
    then show ?thesis
      using False Some c by (simp add: discover_doi_def Let_def split: option.splits)
  qed
qed

lemma filter_fst_enabled:
  "\<forall>step \<in> set (filter (\<lambda>(p, k). Q p) steps). fst step \<in> {p. Q p}"
  by auto

lemma enrich_entry_only_calls:
  "only_calls {p. enabled E use_semantic_scholar use_pubmed use_elsevier p} tr
     (snd (enrich_entry E net entry use_semantic_scholar use_pubmed use_elsevier dry_run tr))"
proof (cases "dry_run \<or> has_abstract entry")
  case True
  then show ?thesis by (auto simp: enrich_entry_def only_calls_refl)
next
  case False
  then have nd: "\<not> dry_run" and na: "\<not> has_abstract entry" by simp_all
  let ?S = "{p. enabled E use_semantic_scholar use_pubmed use_elsevier p}"
  let ?plan = "filter (\<lambda>(p, k). enabled E use_semantic_scholar use_pubmed use_elsevier p)
                 [(Elsevier, ByIdentifier), (Elsevier, ByTitle),
                  (PubMed, ByIdentifier), (PubMed, ByTitle),
                  (Crossref, ByIdentifier), (Crossref, ByTitle),
                  (SemanticScholar, ByIdentifier), (SemanticScholar, ByTitle)]"
  obtain doi entry1 tr1 where d: "discover_doi net entry tr = (doi, entry1, tr1)"
    by (cases "discover_doi net entry tr") auto
  obtain r tr2 where fy: "first_yield net entry1 doi ?plan tr1 = (r, tr2)"
    by (cases "first_yield net entry1 doi ?plan tr1") auto
  have "only_calls {Crossref} tr tr1"
    using discover_doi_only_calls[of tr net entry] d by simp
  then have a: "only_calls ?S tr tr1"
    by (rule only_calls_mono[rotated]) simp
  have "only_calls ?S tr1 (snd (first_yield net entry1 doi ?plan tr1))"
    by (rule first_yield_only_calls) (rule filter_fst_enabled)
  then have b: "only_calls ?S tr1 tr2" by (simp only: fy snd_conv)
  have "enrich_entry E net entry use_semantic_scholar use_pubmed use_elsevier dry_run tr
        = (case r of Some abstract \<Rightarrow> (entry1(''abstract'' \<mapsto> abstract), tr2)
                   | None \<Rightarrow> (entry1, tr2))"
    unfolding enrich_entry_fallback[OF nd na] d prod.case fy by (cases r) simp_all
  then have "snd (enrich_entry E net entry use_semantic_scholar use_pubmed use_elsevier dry_run tr)
             = tr2"
    by (cases r) simp_all
  with only_calls_trans[OF a b] show ?thesis by simp
qed

lemma accepted_Some:
  "accepted ne ga data = Some a \<Longrightarrow> a \<noteq> [] \<and> (\<exists>d. data = Some d \<and> ga d = Some a)"
  by (auto simp: accepted_def split: option.splits if_splits)

lemma first_yield_Some:
  "first_yield net entry doi steps tr = (Some a, tr') \<Longrightarrow>
   a \<noteq> [] \<and> (\<exists>step \<in> set steps. \<exists>t0 t1 d.
      fetch net entry doi step t0 = (Some d, t1) \<and> extract_abstract d = Some a)"
proof (induction steps arbitrary: tr)
  case Nil
  then show ?case by simp
next
  case (Cons step steps)
  obtain r t where rs: "run_step net entry doi step tr = (r, t)"
    by (cases "run_step net entry doi step tr") auto
  show ?case
  proof (cases r)
    case None
    with Cons.prems rs have "first_yield net entry doi steps t = (Some a, tr')" by simp
    from Cons.IH[OF this] show ?thesis by auto
  next
    case (Some b)
    with Cons.prems rs have ab: "b = a" by simp
    obtain data where f: "fetch net entry doi step tr = (data, t)"
      and acc: "accepted payload_nonempty extract_abstract data = Some a"
      using rs Some ab by (auto simp: run_step_def split: prod.splits)
    from accepted_Some[OF acc] f show ?thesis by auto
  qed
qed

lemma discover_doi_frame:
  "discover_doi net entry tr = (doi, entry1, tr1) \<Longrightarrow>
   (\<forall>k. k \<noteq> ''doi'' \<longrightarrow> entry1 k = entry k)
   \<and> (entry1 ''doi'' \<noteq> entry ''doi'' \<longrightarrow> \<not> py_truthy (entry ''doi'') \<and> entry ''title'' \<noteq> None)"
  by (auto simp: discover_doi_def Let_def split: if_splits option.splits prod.splits)

section \<open>Provider priority and first yield\<close>

text \<open>
  C1. For a record with no abstract, \<open>enrich_entry\<close> is: nothing at all in dry-run mode;
  otherwise the identifier-discovery search, then the walk through the steps Elsevier,
  PubMed, Crossref, Semantic Scholar, each by identifier before by title, keeping the steps
  of the enabled providers. The walk stops at the first step that yields an abstract that
  is not empty, that abstract is written to the record, and the steps after it are not run.
\<close>

theorem provider_priority_first_yield:
  assumes "\<not> has_abstract entry"
  shows "enrich_entry E net entry use_semantic_scholar use_pubmed use_elsevier dry_run tr =
     (if dry_run then (entry, tr)
      else
        (case discover_doi net entry tr of
           (doi, entry1, tr1) \<Rightarrow>
             (case first_yield net entry1 doi
                     (filter (\<lambda>(p, k). enabled E use_semantic_scholar use_pubmed use_elsevier p)
                        [(Elsevier, ByIdentifier), (Elsevier, ByTitle),
                         (PubMed, ByIdentifier), (PubMed, ByTitle),
                         (Crossref, ByIdentifier), (Crossref, ByTitle),
                         (SemanticScholar, ByIdentifier), (SemanticScholar, ByTitle)])
                     tr1 of
                (Some abstract, tr') \<Rightarrow> (entry1(''abstract'' \<mapsto> abstract), tr')
              | (None, tr') \<Rightarrow> (entry1, tr'))))"
proof (cases dry_run)
  case True
  then show ?thesis by (simp add: enrich_entry_dry_run)
next
  case False
  from enrich_entry_fallback[OF False assms] False show ?thesis by simp
qed

text \<open>
  With every provider enabled and both Elsevier and Crossref able to answer, the record gets
  Elsevier's abstract after a single request; Crossref is not asked.
\<close>

theorem provider_priority_first_yield_witness:
  "\<not> has_abstract [''doi'' \<mapsto> ''10.1/x'']
   \<and> enrich_entry all_credentials two_sources [''doi'' \<mapsto> ''10.1/x''] True True True False [] =
       (if False then ([''doi'' \<mapsto> ''10.1/x''], [])
        else
          (case discover_doi two_sources [''doi'' \<mapsto> ''10.1/x''] [] of
             (doi, entry1, tr1) \<Rightarrow>
               (case first_yield two_sources entry1 doi
                       (filter (\<lambda>(p, k). enabled all_credentials True True True p)
                          [(Elsevier, ByIdentifier), (Elsevier, ByTitle),
                           (PubMed, ByIdentifier), (PubMed, ByTitle),
                           (Crossref, ByIdentifier), (Crossref, ByTitle),
                           (SemanticScholar, ByIdentifier), (SemanticScholar, ByTitle)])
                       tr1 of
                  (Some abstract, tr') \<Rightarrow> (entry1(''abstract'' \<mapsto> abstract), tr')
                | (None, tr') \<Rightarrow> (entry1, tr'))))
   \<and> snd (enrich_entry all_credentials two_sources [''doi'' \<mapsto> ''10.1/x''] True True True False [])
       = [Request (ElsevierAbstract ''10.1/x'')]
   \<and> fst (enrich_entry all_credentials two_sources [''doi'' \<mapsto> ''10.1/x''] True True True False [])
         ''abstract''
       = Some ''From Elsevier.''"
proof -
  have h: "\<not> has_abstract [''doi'' \<mapsto> ''10.1/x'']" by code_simp
  have t: "snd (enrich_entry all_credentials two_sources [''doi'' \<mapsto> ''10.1/x'']
                  True True True False [])
           = [Request (ElsevierAbstract ''10.1/x'')]"
    by code_simp
  have a: "fst (enrich_entry all_credentials two_sources [''doi'' \<mapsto> ''10.1/x'']
                  True True True False []) ''abstract''
           = Some ''From Elsevier.''"
    by code_simp
  from provider_priority_first_yield
         [OF h, of all_credentials two_sources True True True False "[]"] h t a
  show ?thesis by blast
qed

section \<open>What is written to the record\<close>

text \<open>
  C2, as the claim states it, fails: \<open>enrich_entry\<close> never calls the cleaner. The abstract
  Crossref returns in markup is stored with the markup, while \<open>clean_abstract\<close> of that text
  is the text without it.
\<close>

theorem stored_abstract_not_cleaned:
  "fst (enrich_entry no_credentials crossref_markup [''doi'' \<mapsto> ''10.1/x''] True True True False [])
       ''abstract''
     = Some ''<p>Foo  Bar</p>''
   \<and> clean_abstract no_tables (Some ''<p>Foo  Bar</p>'') = Some ''Foo Bar''"
  by code_simp

text \<open>
  C2, amended. When \<open>enrich_entry\<close> accepts an abstract (the record had none and has one
  afterwards), the record is the one the discovery step left, with the \<open>abstract\<close> field set
  to exactly what the provider's \<open>get_abstract\<close> extracted from the payload of one of the
  steps: the text is stored as returned, not cleaned.
\<close>

theorem stored_abstract_is_provider_text:
  assumes "\<not> has_abstract entry"
    and "discover_doi net entry tr = (doi, entry1, tr1)"
    and "enrich_entry E net entry use_semantic_scholar use_pubmed use_elsevier dry_run tr = (entry', tr')"
    and "has_abstract entry'"
  shows "\<exists>step t0 t1 d. fetch net entry1 doi step t0 = (Some d, t1)
           \<and> entry' = entry1(''abstract'' := extract_abstract d)"
proof -
  let ?plan = "filter (\<lambda>(p, k). enabled E use_semantic_scholar use_pubmed use_elsevier p)
                 [(Elsevier, ByIdentifier), (Elsevier, ByTitle),
                  (PubMed, ByIdentifier), (PubMed, ByTitle),
                  (Crossref, ByIdentifier), (Crossref, ByTitle),
                  (SemanticScholar, ByIdentifier), (SemanticScholar, ByTitle)]"
  have nd: "\<not> dry_run"
    using assms(1,3,4) by (auto simp: enrich_entry_def)
  obtain r tr2 where fy: "first_yield net entry1 doi ?plan tr1 = (r, tr2)"
    by (cases "first_yield net entry1 doi ?plan tr1") auto
  have same: "has_abstract entry1 = has_abstract entry"
    using discover_doi_frame[OF assms(2)] by (simp add: has_abstract_def)
  have ee: "(entry', tr') = (case r of Some abstract \<Rightarrow> (entry1(''abstract'' \<mapsto> abstract), tr2)
                                    | None \<Rightarrow> (entry1, tr2))"
    unfolding assms(3)[symmetric] enrich_entry_fallback[OF nd assms(1)] assms(2) prod.case fy
    by (cases r) simp_all
  show ?thesis
  proof (cases r)
    case None
    with ee have "entry' = entry1" by simp
    with same assms(1,4) show ?thesis by simp
  next
    case (Some a)
    with ee have e: "entry' = entry1(''abstract'' \<mapsto> a)" by simp
    from first_yield_Some[OF fy[unfolded Some]] obtain step t0 t1 d where
      f: "fetch net entry1 doi step t0 = (Some d, t1)" and x: "extract_abstract d = Some a"
      by blast
    have "fetch net entry1 doi step t0 = (Some d, t1)
          \<and> entry' = entry1(''abstract'' := extract_abstract d)"
      using f x e by simp
    then show ?thesis by blast
  qed
qed

theorem stored_abstract_is_provider_text_witness:
  "\<not> has_abstract [''doi'' \<mapsto> ''10.1/x'']
   \<and> has_abstract (fst (enrich_entry no_credentials crossref_markup [''doi'' \<mapsto> ''10.1/x'']
                          True True True False []))
   \<and> (\<exists>step t0 t1 d.
         fetch crossref_markup
           (fst (snd (discover_doi crossref_markup [''doi'' \<mapsto> ''10.1/x''] [])))
           (fst (discover_doi crossref_markup [''doi'' \<mapsto> ''10.1/x''] [])) step t0 = (Some d, t1)
         \<and> fst (enrich_entry no_credentials crossref_markup [''doi'' \<mapsto> ''10.1/x'']
                   True True True False [])
           = (fst (snd (discover_doi crossref_markup [''doi'' \<mapsto> ''10.1/x''] [])))
               (''abstract'' := extract_abstract d))"
proof -
  have h1: "\<not> has_abstract [''doi'' \<mapsto> ''10.1/x'']" by code_simp
  have h2: "has_abstract (fst (enrich_entry no_credentials crossref_markup [''doi'' \<mapsto> ''10.1/x'']
                                 True True True False []))"
    by code_simp
  have d: "discover_doi crossref_markup [''doi'' \<mapsto> ''10.1/x''] []
           = (fst (discover_doi crossref_markup [''doi'' \<mapsto> ''10.1/x''] []),
              fst (snd (discover_doi crossref_markup [''doi'' \<mapsto> ''10.1/x''] [])),
              snd (snd (discover_doi crossref_markup [''doi'' \<mapsto> ''10.1/x''] [])))"
    by simp
  from stored_abstract_is_provider_text[OF h1 d prod.collapse[symmetric] h2] h1 h2
  show ?thesis by blast
qed

section \<open>Retries\<close>

text \<open>
  The loop on its own: a body that fails every time with one request is run three times,
  with waits of 1 and 2 between the attempts, and the loop ends in \<open>Failed\<close>; a body
  that succeeds ends the loop at once.
\<close>

lemma with_retries_always_failing:
  assumes "\<And>t. body t = (Failed, t @ [e])"
  shows "with_retries body [0..<max_retries] tr = (Failed, tr @ [e, Sleep 1, e, Sleep 2, e])"
proof -
  have "[0..<max_retries] = [0, 1, 2]"
    by (simp add: max_retries_def upt_rec)
  then show ?thesis
    by (simp add: assms max_retries_def retry_delay_def)
qed

lemma with_retries_success:
  assumes "body tr = (Reply x, tr1)"
  shows "with_retries body (attempt # attempts) tr = (Reply x, tr1)"
  using assms by simp

text \<open>
  C3 holds for seven of the eight client methods, which share the retry loop, and fails for
  \<open>CrossrefAPI.get_by_doi\<close>, which has no loop. Against a provider that always fails,
  Crossref's lookup by DOI makes one request and gives up with no result; the same lookup
  at Semantic Scholar makes three requests, waiting 1 and then 2 time units.
\<close>

theorem crossref_get_by_doi_single_attempt:
  "crossref_get_by_doi offline ''10.1/x'' [] = (None, [Request (CrossrefWork ''10.1/x'')])
   \<and> s2_get_by_doi offline ''10.1/x'' [] =
       (None, [Request (S2Paper ''10.1/x''), Sleep 1, Request (S2Paper ''10.1/x''), Sleep 2,
               Request (S2Paper ''10.1/x'')])"
  by code_simp

section \<open>Disabled providers\<close>

text \<open>
  C4, as the claim states it, fails for Crossref: \<open>enrich_entry\<close> has a switch for Semantic
  Scholar, PubMed and Elsevier and none for Crossref. With the three switches off and no
  credentials, a record with a title still sends six requests to Crossref (the discovery
  search and the search by title, three attempts each).
\<close>

theorem crossref_has_no_switch:
  "snd (enrich_entry no_credentials offline [''title'' \<mapsto> ''T''] False False False False [])
   = [Request (CrossrefQuery ''t''), Sleep 1, Request (CrossrefQuery ''t''), Sleep 2,
      Request (CrossrefQuery ''t''),
      Request (CrossrefQuery ''t''), Sleep 1, Request (CrossrefQuery ''t''), Sleep 2,
      Request (CrossrefQuery ''t'')]"
  by code_simp

lemma with_retries_extends: "\<exists>new. snd (with_retries body attempts tr) = tr @ new"
  if "\<And>t. \<exists>new. snd (body t) = t @ new"
proof (induction attempts arbitrary: tr)
  case Nil
  show ?case by simp
next
  case (Cons attempt rest)
  obtain r tr1 where b: "body tr = (r, tr1)" by (cases "body tr") auto
  from that[of tr] b obtain n1 where n1: "tr1 = tr @ n1" by auto
  show ?case
  proof (cases r)
    case (Reply x)
    with b n1 show ?thesis by simp
  next
    case Failed
    show ?thesis
    proof (cases "attempt = max_retries - 1")
      case True
      with b n1 Failed show ?thesis by simp
    next
      case False
      from Cons.IH[of "tr1 @ [Sleep (retry_delay * (attempt + 1))]"] obtain n2 where
        "snd (with_retries body rest (tr1 @ [Sleep (retry_delay * (attempt + 1))]))
         = (tr1 @ [Sleep (retry_delay * (attempt + 1))]) @ n2"
        by blast
      with b n1 Failed False show ?thesis by simp
    qed
  qed
qed

lemma with_retries_first_request:
  assumes "\<And>t. snd (body t) = t @ [e]"
  shows "\<exists>rest. snd (with_retries body (attempt # attempts) tr) = tr @ e # rest"
proof -
  obtain r where b: "body tr = (r, tr @ [e])"
    using assms[of tr] by (cases "body tr") auto
  show ?thesis
  proof (cases r)
    case (Reply x)
    with b show ?thesis by simp
  next
    case Failed
    show ?thesis
    proof (cases "attempt = max_retries - 1")
      case True
      with b Failed show ?thesis by simp
    next
      case False
      have "\<exists>new. snd (with_retries body attempts ((tr @ [e]) @ [Sleep (retry_delay * (attempt + 1))]))
                  = ((tr @ [e]) @ [Sleep (retry_delay * (attempt + 1))]) @ new"
        by (rule with_retries_extends) (simp add: assms)
      with b Failed False show ?thesis by auto
    qed
  qed
qed

lemma crossref_search_by_title_first_request:
  "\<exists>rest. snd (crossref_search_by_title net title ms tr)
            = tr @ Request (CrossrefQuery (clean_title title)) # rest"
proof -
  let ?body = "\<lambda>t. (crossref_query net t (clean_title title),
                     t @ [Request (CrossrefQuery (clean_title title))])"
  have att: "[0..<max_retries] = 0 # [1..<max_retries]"
    by (simp add: max_retries_def upt_conv_Cons)
  have "\<exists>rest. snd (with_retries ?body (0 # [1..<max_retries]) tr)
                = tr @ Request (CrossrefQuery (clean_title title)) # rest"
    by (rule with_retries_first_request) simp
  then show ?thesis
    unfolding crossref_search_by_title_def Let_def att
    by (auto split: prod.splits reply.splits)
qed

lemma discover_doi_first_request:
  assumes "\<not> py_truthy (entry ''doi'')" "entry ''title'' = Some title"
  shows "\<exists>rest. snd (snd (discover_doi net entry tr))
            = tr @ Request (CrossrefQuery (clean_title title)) # rest"
proof -
  obtain r tr1 where c: "crossref_search_by_title net title default_min_similarity tr = (r, tr1)"
    by (cases "crossref_search_by_title net title default_min_similarity tr") auto
  from crossref_search_by_title_first_request[of net title default_min_similarity tr] c
  obtain rest where "tr1 = tr @ Request (CrossrefQuery (clean_title title)) # rest" by auto
  then show ?thesis
    using assms c by (simp add: discover_doi_def Let_def split: option.splits)
qed

text \<open>
  C4, amended. Elsevier, PubMed and Semantic Scholar can each be switched off, and Elsevier
  without an API key and PubMed without an email are off: every request \<open>enrich_entry\<close>
  adds to the trace goes to Crossref or to a provider that is switched on and has its
  credential. Crossref cannot be switched off: whatever the configuration, a record
  without abstract and DOI and with a title is searched at Crossref (dry-run mode apart).
\<close>

theorem disabled_provider_never_called:
  assumes "enrich_entry E net entry use_semantic_scholar use_pubmed use_elsevier dry_run tr = (entry', tr')"
  shows "\<exists>new. tr' = tr @ new
           \<and> (\<forall>r. Request r \<in> set new \<longrightarrow>
                 (provider_of r = Elsevier \<longrightarrow> use_elsevier \<and> has_elsevier E)
               \<and> (provider_of r = PubMed \<longrightarrow> use_pubmed \<and> has_pubmed E)
               \<and> (provider_of r = SemanticScholar \<longrightarrow> use_semantic_scholar))
           \<and> (\<forall>title. \<not> dry_run \<and> \<not> has_abstract entry \<and> \<not> py_truthy (entry ''doi'')
                      \<and> entry ''title'' = Some title
                 \<longrightarrow> Request (CrossrefQuery (clean_title title)) \<in> set new)"
proof -
  have "only_calls {p. enabled E use_semantic_scholar use_pubmed use_elsevier p} tr tr'"
    using enrich_entry_only_calls[of E use_semantic_scholar use_pubmed use_elsevier tr net entry dry_run]
      assms by simp
  then obtain new where n: "tr' = tr @ new"
    and c: "\<forall>r. Request r \<in> set new \<longrightarrow> enabled E use_semantic_scholar use_pubmed use_elsevier (provider_of r)"
    unfolding only_calls_def by auto
  have sw: "(provider_of r = Elsevier \<longrightarrow> use_elsevier \<and> has_elsevier E)
      \<and> (provider_of r = PubMed \<longrightarrow> use_pubmed \<and> has_pubmed E)
      \<and> (provider_of r = SemanticScholar \<longrightarrow> use_semantic_scholar)"
    if "Request r \<in> set new" for r
    using c that by (cases "provider_of r") auto
  have cr: "Request (CrossrefQuery (clean_title title)) \<in> set new"
    if nd: "\<not> dry_run" and na: "\<not> has_abstract entry" and nodoi: "\<not> py_truthy (entry ''doi'')"
      and t: "entry ''title'' = Some title" for title
  proof -
    let ?plan = "filter (\<lambda>(p, k). enabled E use_semantic_scholar use_pubmed use_elsevier p)
                   [(Elsevier, ByIdentifier), (Elsevier, ByTitle),
                    (PubMed, ByIdentifier), (PubMed, ByTitle),
                    (Crossref, ByIdentifier), (Crossref, ByTitle),
                    (SemanticScholar, ByIdentifier), (SemanticScholar, ByTitle)]"
    obtain doi entry1 tr1 where d: "discover_doi net entry tr = (doi, entry1, tr1)"
      by (cases "discover_doi net entry tr") auto
    obtain r tr2 where fy: "first_yield net entry1 doi ?plan tr1 = (r, tr2)"
      by (cases "first_yield net entry1 doi ?plan tr1") auto
    from discover_doi_first_request[OF nodoi t, of net tr] d
    obtain rest where r1: "tr1 = tr @ Request (CrossrefQuery (clean_title title)) # rest" by auto
    have "only_calls UNIV tr1 (snd (first_yield net entry1 doi ?plan tr1))"
      by (rule first_yield_only_calls) simp
    then obtain more where r2: "tr2 = tr1 @ more"
      unfolding only_calls_def fy by auto
    have "(entry', tr') = (case r of Some abstract \<Rightarrow> (entry1(''abstract'' \<mapsto> abstract), tr2)
                                   | None \<Rightarrow> (entry1, tr2))"
      unfolding assms[symmetric] enrich_entry_fallback[OF nd na] d prod.case fy
      by (cases r) simp_all
    then have "tr' = tr2" by (cases r) simp_all
    with n r1 r2 have "new = Request (CrossrefQuery (clean_title title)) # rest @ more" by simp
    then show ?thesis by simp
  qed
  from n sw cr show ?thesis by blast
qed

text \<open>
  With every credential given, Elsevier and PubMed switched off and Semantic Scholar on, a
  record with a title and every request failing: the trace holds requests to Crossref and
  Semantic Scholar only, the search at Crossref among them.
\<close>

theorem disabled_provider_never_called_witness:
  "enrich_entry all_credentials offline [''title'' \<mapsto> ''T''] True False False False []
     = (fst (enrich_entry all_credentials offline [''title'' \<mapsto> ''T''] True False False False []),
        [Request (CrossrefQuery ''t''), Sleep 1, Request (CrossrefQuery ''t''), Sleep 2,
         Request (CrossrefQuery ''t''),
         Request (CrossrefQuery ''t''), Sleep 1, Request (CrossrefQuery ''t''), Sleep 2,
         Request (CrossrefQuery ''t''),
         Request (S2Search ''t''), Sleep 1, Request (S2Search ''t''), Sleep 2,
         Request (S2Search ''t'')])
   \<and> \<not> has_abstract [''title'' \<mapsto> ''T''] \<and> \<not> py_truthy ([''title'' \<mapsto> ''T''] ''doi'')
   \<and> [''title'' \<mapsto> ''T''] ''title'' = Some ''T''
   \<and> (\<exists>new. [Request (CrossrefQuery ''t''), Sleep 1, Request (CrossrefQuery ''t''), Sleep 2,
         Request (CrossrefQuery ''t''),
         Request (CrossrefQuery ''t''), Sleep 1, Request (CrossrefQuery ''t''), Sleep 2,
         Request (CrossrefQuery ''t''),
         Request (S2Search ''t''), Sleep 1, Request (S2Search ''t''), Sleep 2,
         Request (S2Search ''t'')] = [] @ new
        \<and> (\<forall>r. Request r \<in> set new \<longrightarrow>
              (provider_of r = Elsevier \<longrightarrow> False \<and> has_elsevier all_credentials)
            \<and> (provider_of r = PubMed \<longrightarrow> False \<and> has_pubmed all_credentials)
            \<and> (provider_of r = SemanticScholar \<longrightarrow> True))
        \<and> Request (CrossrefQuery (clean_title ''T'')) \<in> set new)"
proof -
  have t: "snd (enrich_entry all_credentials offline [''title'' \<mapsto> ''T''] True False False False [])
      = [Request (CrossrefQuery ''t''), Sleep 1, Request (CrossrefQuery ''t''), Sleep 2,
         Request (CrossrefQuery ''t''),
         Request (CrossrefQuery ''t''), Sleep 1, Request (CrossrefQuery ''t''), Sleep 2,
         Request (CrossrefQuery ''t''),
         Request (S2Search ''t''), Sleep 1, Request (S2Search ''t''), Sleep 2,
         Request (S2Search ''t'')]"
    by code_simp
  have e: "enrich_entry all_credentials offline [''title'' \<mapsto> ''T''] True False False False []
     = (fst (enrich_entry all_credentials offline [''title'' \<mapsto> ''T''] True False False False []),
        [Request (CrossrefQuery ''t''), Sleep 1, Request (CrossrefQuery ''t''), Sleep 2,
         Request (CrossrefQuery ''t''),
         Request (CrossrefQuery ''t''), Sleep 1, Request (CrossrefQuery ''t''), Sleep 2,
         Request (CrossrefQuery ''t''),
         Request (S2Search ''t''), Sleep 1, Request (S2Search ''t''), Sleep 2,
         Request (S2Search ''t'')])"
    unfolding t[symmetric] by simp
  have h: "\<not> has_abstract [''title'' \<mapsto> ''T'']" "\<not> py_truthy ([''title'' \<mapsto> ''T''] ''doi'')"
    "[''title'' \<mapsto> ''T''] ''title'' = Some ''T''"
    by (simp_all add: has_abstract_def py_truthy_def)
  from disabled_provider_never_called[OF e] e h show ?thesis by blast
qed

section \<open>A record no provider can enrich\<close>

text \<open>
  C8. When the record \<open>enrich_entry\<close> returns has no abstract (no provider yielded one),
  every field but \<open>doi\<close> is as it was: present with the same value, or absent. The \<open>doi\<close>
  field differs only if the record had no DOI and had a title, which is when the discovery
  search runs.
\<close>

theorem failed_entry_frame:
  assumes "enrich_entry E net entry use_semantic_scholar use_pubmed use_elsevier dry_run tr = (entry', tr')"
    and "\<not> has_abstract entry'"
  shows "(\<forall>k. k \<noteq> ''doi'' \<longrightarrow> entry' k = entry k)
         \<and> (entry' ''doi'' \<noteq> entry ''doi'' \<longrightarrow> \<not> py_truthy (entry ''doi'') \<and> entry ''title'' \<noteq> None)"
proof (cases "dry_run \<or> has_abstract entry")
  case True
  then have "enrich_entry E net entry use_semantic_scholar use_pubmed use_elsevier dry_run tr
             = (entry, tr)"
    by (cases dry_run) (simp_all add: enrich_entry_def)
  with assms(1) have "entry' = entry" by simp
  then show ?thesis by simp
next
  case False
  then have nd: "\<not> dry_run" and na: "\<not> has_abstract entry" by simp_all
  let ?plan = "filter (\<lambda>(p, k). enabled E use_semantic_scholar use_pubmed use_elsevier p)
                 [(Elsevier, ByIdentifier), (Elsevier, ByTitle),
                  (PubMed, ByIdentifier), (PubMed, ByTitle),
                  (Crossref, ByIdentifier), (Crossref, ByTitle),
                  (SemanticScholar, ByIdentifier), (SemanticScholar, ByTitle)]"
  obtain doi entry1 tr1 where d: "discover_doi net entry tr = (doi, entry1, tr1)"
    by (cases "discover_doi net entry tr") auto
  obtain r tr2 where fy: "first_yield net entry1 doi ?plan tr1 = (r, tr2)"
    by (cases "first_yield net entry1 doi ?plan tr1") auto
  have ee: "(entry', tr') = (case r of Some abstract \<Rightarrow> (entry1(''abstract'' \<mapsto> abstract), tr2)
                                    | None \<Rightarrow> (entry1, tr2))"
    unfolding assms(1)[symmetric] enrich_entry_fallback[OF nd na] d prod.case fy
    by (cases r) simp_all
  have "entry' = entry1"
  proof (cases r)
    case None
    with ee show ?thesis by simp
  next
    case (Some a)
    with ee have e: "entry' = entry1(''abstract'' \<mapsto> a)" by simp
    from first_yield_Some[OF fy[unfolded Some]] have "a \<noteq> []" by simp
    with e have "has_abstract entry'" by (simp add: has_abstract_def py_truthy_def)
    with assms(2) show ?thesis by simp
  qed
  with discover_doi_frame[OF d] show ?thesis by simp
qed

text \<open>
  The Crossref search finds the DOI of the title and no provider has an abstract: the
  record keeps its title and author and gains the DOI.
\<close>

theorem failed_entry_frame_witness:
  "\<not> has_abstract (fst (enrich_entry no_credentials finds_doi
                           [''title'' \<mapsto> ''T'', ''author'' \<mapsto> ''A. Author'']
                           True True True False []))
   \<and> fst (enrich_entry no_credentials finds_doi [''title'' \<mapsto> ''T'', ''author'' \<mapsto> ''A. Author'']
            True True True False []) ''title'' = Some ''T''
   \<and> fst (enrich_entry no_credentials finds_doi [''title'' \<mapsto> ''T'', ''author'' \<mapsto> ''A. Author'']
            True True True False []) ''author'' = Some ''A. Author''
   \<and> fst (enrich_entry no_credentials finds_doi [''title'' \<mapsto> ''T'', ''author'' \<mapsto> ''A. Author'']
            True True True False []) ''year'' = None
   \<and> fst (enrich_entry no_credentials finds_doi [''title'' \<mapsto> ''T'', ''author'' \<mapsto> ''A. Author'']
            True True True False []) ''doi'' = Some ''10.1/x''"
proof -
  let ?r = "enrich_entry no_credentials finds_doi [''title'' \<mapsto> ''T'', ''author'' \<mapsto> ''A. Author'']
              True True True False []"
  have h: "\<not> has_abstract (fst ?r)" by code_simp
  have d: "fst ?r ''doi'' = Some ''10.1/x''" by code_simp
  have f: "\<forall>k. k \<noteq> ''doi'' \<longrightarrow> fst ?r k = [''title'' \<mapsto> ''T'', ''author'' \<mapsto> ''A. Author''] k"
    using failed_entry_frame[OF prod.collapse[symmetric] h] by blast
  have "fst ?r ''title'' = Some ''T''" "fst ?r ''author'' = Some ''A. Author''" "fst ?r ''year'' = None"
    using f by simp_all
  with h d show ?thesis by simp
qed

section \<open>Range of the title similarity\<close>

lemma ratio_range: "0 \<le> ratio a b \<and> ratio a b \<le> 1"
proof -
  let ?m = "sum_list (map (\<lambda>(i, j, k). k) (matching_blocks a b 0 (length a) 0 (length b)))"
  let ?n = "length a + length b"
  from matching_blocks_sum[of a b 0 "length a" 0 "length b"]
  have "2 * ?m \<le> ?n" by simp
  then have le: "(2 * of_nat ?m :: rat) \<le> of_nat ?n"
    by (metis of_nat_le_iff of_nat_mult of_nat_numeral)
  show ?thesis
  proof (cases "?n = 0")
    case True
    then show ?thesis by (simp add: ratio_def)
  next
    case False
    then have "0 < ?n" by simp
    then have pos: "(0 :: rat) < of_nat ?n" by (simp only: of_nat_0_less_iff)
    have "ratio a b = 2 * of_nat ?m / of_nat ?n"
      using False by (simp add: ratio_def Let_def)
    moreover have "(0 :: rat) \<le> 2 * of_nat ?m / of_nat ?n" by simp
    moreover have "2 * of_nat ?m / (of_nat ?n :: rat) \<le> 1"
      using le pos by (simp add: divide_le_eq)
    ultimately show ?thesis by simp
  qed
qed

text \<open>
  C7, as the claim states it, fails in its first half: the matcher is not symmetric. (The
  two values are the ones the Python documentation gives for these words.)
\<close>

theorem title_similarity_not_symmetric:
  "title_similarity ''tide'' ''diet'' = 1 / 4 \<and> title_similarity ''diet'' ''tide'' = 1 / 2"
  by code_simp

text \<open>C7, amended: for all strings the title similarity lies between 0 and 1.\<close>

theorem title_similarity_range:
  "0 \<le> title_similarity a b \<and> title_similarity a b \<le> 1"
  unfolding title_similarity_def by (rule ratio_range)

section \<open>The candidate a title search selects\<close>

text \<open>The score of a candidate: none for a candidate the loop skips.\<close>

definition cr_score :: "string \<Rightarrow> cr_work \<Rightarrow> rat option" where
  "cr_score title result = map_option (title_similarity title) (cr_result_title result)"

lemma cr_best_cases:
  "cr_best title results (bm, bs) = (bm', bs') \<Longrightarrow>
   (bm' = bm \<and> bs' = bs \<and> (\<forall>j < length results. \<forall>s. cr_score title (results ! j) = Some s \<longrightarrow> s \<le> bs))
   \<or> (\<exists>i < length results. bm' = Some (results ! i) \<and> cr_score title (results ! i) = Some bs'
         \<and> bs < bs'
         \<and> (\<forall>j < i. \<forall>s. cr_score title (results ! j) = Some s \<longrightarrow> s < bs')
         \<and> (\<forall>j < length results. \<forall>s. cr_score title (results ! j) = Some s \<longrightarrow> s \<le> bs'))"
proof (induction results arbitrary: bm bs)
  case Nil
  then show ?case by simp
next
  case (Cons r rs)
  show ?case
  proof (cases "cr_result_title r")
    case None
    then have sc: "cr_score title r = None" by (simp add: cr_score_def)
    from Cons.prems None have "cr_best title rs (bm, bs) = (bm', bs')" by simp
    from Cons.IH[OF this] show ?thesis
    proof
      assume a: "bm' = bm \<and> bs' = bs
                 \<and> (\<forall>j < length rs. \<forall>s. cr_score title (rs ! j) = Some s \<longrightarrow> s \<le> bs)"
      have "\<forall>j < length (r # rs). \<forall>s. cr_score title ((r # rs) ! j) = Some s \<longrightarrow> s \<le> bs"
        using a sc by (auto simp: nth_Cons split: nat.splits)
      with a show ?thesis by blast
    next
      assume "\<exists>i < length rs. bm' = Some (rs ! i) \<and> cr_score title (rs ! i) = Some bs'
                \<and> bs < bs'
                \<and> (\<forall>j < i. \<forall>s. cr_score title (rs ! j) = Some s \<longrightarrow> s < bs')
                \<and> (\<forall>j < length rs. \<forall>s. cr_score title (rs ! j) = Some s \<longrightarrow> s \<le> bs')"
      then obtain i where i: "i < length rs" "bm' = Some (rs ! i)"
        "cr_score title (rs ! i) = Some bs'" "bs < bs'"
        "\<forall>j < i. \<forall>s. cr_score title (rs ! j) = Some s \<longrightarrow> s < bs'"
        "\<forall>j < length rs. \<forall>s. cr_score title (rs ! j) = Some s \<longrightarrow> s \<le> bs'"
        by blast
      have "Suc i < length (r # rs)" "bm' = Some ((r # rs) ! Suc i)"
        "cr_score title ((r # rs) ! Suc i) = Some bs'"
        using i by simp_all
      moreover have "\<forall>j < Suc i. \<forall>s. cr_score title ((r # rs) ! j) = Some s \<longrightarrow> s < bs'"
        using i(5) sc by (auto simp: nth_Cons split: nat.splits)
      moreover have "\<forall>j < length (r # rs). \<forall>s. cr_score title ((r # rs) ! j) = Some s \<longrightarrow> s \<le> bs'"
        using i(6) sc by (auto simp: nth_Cons split: nat.splits)
      ultimately show ?thesis using i(4) by blast
    qed
  next
    case (Some t)
    define s0 where "s0 = title_similarity title t"
    have sc: "cr_score title r = Some s0" using Some by (simp add: cr_score_def s0_def)
    show ?thesis
    proof (cases "bs < s0")
      case True
      with Cons.prems Some have "cr_best title rs (Some r, s0) = (bm', bs')"
        by (simp add: s0_def Let_def)
      from Cons.IH[OF this] show ?thesis
      proof
        assume a: "bm' = Some r \<and> bs' = s0
                   \<and> (\<forall>j < length rs. \<forall>s. cr_score title (rs ! j) = Some s \<longrightarrow> s \<le> s0)"
        have "0 < length (r # rs)" "bm' = Some ((r # rs) ! 0)"
          "cr_score title ((r # rs) ! 0) = Some bs'" "bs < bs'"
          using a sc True by simp_all
        moreover have "\<forall>j < (0::nat). \<forall>s. cr_score title ((r # rs) ! j) = Some s \<longrightarrow> s < bs'"
          by simp
        moreover have "\<forall>j < length (r # rs). \<forall>s. cr_score title ((r # rs) ! j) = Some s \<longrightarrow> s \<le> bs'"
          using a sc by (auto simp: nth_Cons split: nat.splits)
        ultimately show ?thesis by blast
      next
        assume "\<exists>i < length rs. bm' = Some (rs ! i) \<and> cr_score title (rs ! i) = Some bs'
                  \<and> s0 < bs'
                  \<and> (\<forall>j < i. \<forall>s. cr_score title (rs ! j) = Some s \<longrightarrow> s < bs')
                  \<and> (\<forall>j < length rs. \<forall>s. cr_score title (rs ! j) = Some s \<longrightarrow> s \<le> bs')"
        then obtain i where i: "i < length rs" "bm' = Some (rs ! i)"
          "cr_score title (rs ! i) = Some bs'" "s0 < bs'"
          "\<forall>j < i. \<forall>s. cr_score title (rs ! j) = Some s \<longrightarrow> s < bs'"
          "\<forall>j < length rs. \<forall>s. cr_score title (rs ! j) = Some s \<longrightarrow> s \<le> bs'"
          by blast
        have "Suc i < length (r # rs)" "bm' = Some ((r # rs) ! Suc i)"
          "cr_score title ((r # rs) ! Suc i) = Some bs'" "bs < bs'"
          using i True by simp_all
        moreover have "\<forall>j < Suc i. \<forall>s. cr_score title ((r # rs) ! j) = Some s \<longrightarrow> s < bs'"
          using i(4,5) sc by (auto simp: nth_Cons split: nat.splits)
        moreover have "\<forall>j < length (r # rs). \<forall>s. cr_score title ((r # rs) ! j) = Some s \<longrightarrow> s \<le> bs'"
          using i(4,6) sc by (auto simp: nth_Cons split: nat.splits)
        ultimately show ?thesis by blast
      qed
    next
      case False
      with Cons.prems Some have "cr_best title rs (bm, bs) = (bm', bs')"
        by (simp add: s0_def Let_def)
      from Cons.IH[OF this] show ?thesis
      proof
        assume a: "bm' = bm \<and> bs' = bs
                   \<and> (\<forall>j < length rs. \<forall>s. cr_score title (rs ! j) = Some s \<longrightarrow> s \<le> bs)"
        have "\<forall>j < length (r # rs). \<forall>s. cr_score title ((r # rs) ! j) = Some s \<longrightarrow> s \<le> bs"
          using a sc False by (auto simp: nth_Cons split: nat.splits)
        with a show ?thesis by blast
      next
        assume "\<exists>i < length rs. bm' = Some (rs ! i) \<and> cr_score title (rs ! i) = Some bs'
                  \<and> bs < bs'
                  \<and> (\<forall>j < i. \<forall>s. cr_score title (rs ! j) = Some s \<longrightarrow> s < bs')
                  \<and> (\<forall>j < length rs. \<forall>s. cr_score title (rs ! j) = Some s \<longrightarrow> s \<le> bs')"
        then obtain i where i: "i < length rs" "bm' = Some (rs ! i)"
          "cr_score title (rs ! i) = Some bs'" "bs < bs'"
          "\<forall>j < i. \<forall>s. cr_score title (rs ! j) = Some s \<longrightarrow> s < bs'"
          "\<forall>j < length rs. \<forall>s. cr_score title (rs ! j) = Some s \<longrightarrow> s \<le> bs'"
          by blast
        have "Suc i < length (r # rs)" "bm' = Some ((r # rs) ! Suc i)"
          "cr_score title ((r # rs) ! Suc i) = Some bs'"
          using i by simp_all
        moreover have "\<forall>j < Suc i. \<forall>s. cr_score title ((r # rs) ! j) = Some s \<longrightarrow> s < bs'"
          using i(4,5) sc False by (auto simp: nth_Cons split: nat.splits)
        moreover have "\<forall>j < length (r # rs). \<forall>s. cr_score title ((r # rs) ! j) = Some s \<longrightarrow> s \<le> bs'"
          using i(4,6) sc False by (auto simp: nth_Cons split: nat.splits)
        ultimately show ?thesis using i(4) by blast
      qed
    qed
  qed
qed

lemma crossref_select_Some:
  assumes "crossref_select title min_similarity (Some results) = Some m"
  shows "\<exists>i < length results. results ! i = m
           \<and> (\<exists>s. cr_score title m = Some s \<and> min_similarity \<le> s
                \<and> (\<forall>j < length results. \<forall>s'. cr_score title (results ! j) = Some s' \<longrightarrow> s' \<le> s)
                \<and> (\<forall>j < i. \<forall>s'. cr_score title (results ! j) = Some s' \<longrightarrow> s' < s))"
proof -
  obtain bm bs where b: "cr_best title results (None, 0) = (bm, bs)"
    by (cases "cr_best title results (None, 0)") auto
  from assms b have ms: "min_similarity \<le> bs" and bm: "bm = Some m"
    by (auto simp: crossref_select_def split: if_splits)
  from cr_best_cases[OF b] bm obtain i where i: "i < length results" "bm = Some (results ! i)"
    "cr_score title (results ! i) = Some bs"
    "\<forall>j < i. \<forall>s. cr_score title (results ! j) = Some s \<longrightarrow> s < bs"
    "\<forall>j < length results. \<forall>s. cr_score title (results ! j) = Some s \<longrightarrow> s \<le> bs"
    by auto
  from i(2) bm have "results ! i = m" by simp
  with i ms show ?thesis by blast
qed

lemma crossref_select_below:
  assumes "\<forall>r \<in> set results. \<forall>s. cr_score title r = Some s \<longrightarrow> s < min_similarity"
  shows "crossref_select title min_similarity (Some results) = None"
proof (rule ccontr)
  assume "crossref_select title min_similarity (Some results) \<noteq> None"
  then obtain m where "crossref_select title min_similarity (Some results) = Some m" by auto
  from crossref_select_Some[OF this] obtain i s where
    "i < length results" "results ! i = m" "cr_score title m = Some s" "min_similarity \<le> s"
    by blast
  with assms show False by (metis nth_mem not_less)
qed

lemma crossref_select_reaches:
  assumes "r \<in> set results" "cr_score title r = Some s" "min_similarity \<le> s" "0 < s"
  shows "crossref_select title min_similarity (Some results) \<noteq> None"
proof -
  obtain bm bs where b: "cr_best title results (None, 0) = (bm, bs)"
    by (cases "cr_best title results (None, 0)") auto
  from assms(1) obtain j where j: "j < length results" "results ! j = r"
    by (auto simp: in_set_conv_nth)
  from cr_best_cases[OF b] have "bm \<noteq> None \<and> s \<le> bs"
  proof
    assume "bm = None \<and> bs = 0
            \<and> (\<forall>j < length results. \<forall>s. cr_score title (results ! j) = Some s \<longrightarrow> s \<le> 0)"
    with j assms(2,4) show ?thesis by force
  next
    assume "\<exists>i < length results. bm = Some (results ! i) \<and> cr_score title (results ! i) = Some bs
              \<and> 0 < bs
              \<and> (\<forall>j < i. \<forall>s. cr_score title (results ! j) = Some s \<longrightarrow> s < bs)
              \<and> (\<forall>j < length results. \<forall>s. cr_score title (results ! j) = Some s \<longrightarrow> s \<le> bs)"
    with j assms(2) show ?thesis by auto
  qed
  with assms(1,3) b show ?thesis
    by (auto simp: crossref_select_def)
qed

text \<open>Three Crossref candidates: two titled \<open>ab\<close> up to case, one unrelated.\<close>

definition candidate_1 :: cr_work where
  "candidate_1 = \<lparr>cr_DOI = Some ''10.1/1'', cr_title = Some (TitleList [''ab'']), cr_abstract = None\<rparr>"

definition candidate_2 :: cr_work where
  "candidate_2 = \<lparr>cr_DOI = Some ''10.1/2'', cr_title = Some (TitleStr ''AB''), cr_abstract = None\<rparr>"

definition candidate_3 :: cr_work where
  "candidate_3 = \<lparr>cr_DOI = Some ''10.1/3'', cr_title = Some (TitleList [''xy'']), cr_abstract = None\<rparr>"

section \<open>The candidate selected by every provider's title search\<close>

text \<open>
  The scores of the candidates of the other three providers: a Semantic Scholar paper and
  a Scopus hit without a title are skipped by their loops, a PubMed article without one
  has no score (and makes the loop raise).
\<close>

definition s2_score :: "string \<Rightarrow> s2_paper \<Rightarrow> rat option" where
  "s2_score title paper = map_option (title_similarity title) (s2_title paper)"

definition els_score :: "string \<Rightarrow> els_hit \<Rightarrow> rat option" where
  "els_score title entry = map_option (title_similarity title) (els_dc_title entry)"

definition pm_score :: "string \<Rightarrow> pm_article \<Rightarrow> rat option" where
  "pm_score title article = map_option (title_similarity title) (pm_ArticleTitle article)"

text \<open>
  The specification's words for the selection: \<open>m\<close> is the first candidate of the list
  with the maximum score \<open>s\<close>. Every score is at most \<open>s\<close> and every candidate before
  \<open>m\<close> scores strictly less.
\<close>

definition first_best :: "('c \<Rightarrow> rat option) \<Rightarrow> 'c list \<Rightarrow> 'c \<Rightarrow> rat \<Rightarrow> bool" where
  "first_best score candidates m s =
     (\<exists>i < length candidates. candidates ! i = m \<and> score m = Some s
        \<and> (\<forall>j < length candidates. \<forall>s'. score (candidates ! j) = Some s' \<longrightarrow> s' \<le> s)
        \<and> (\<forall>j < i. \<forall>s'. score (candidates ! j) = Some s' \<longrightarrow> s' < s))"

text \<open>
  What a selection loop started with \<open>(None, 0)\<close> must end with: no candidate and 0 when
  no score is above 0, else the first candidate with the maximum score, and that score.
\<close>

definition selects :: "('c \<Rightarrow> rat option) \<Rightarrow> 'c list \<Rightarrow> 'c option \<times> rat \<Rightarrow> bool" where
  "selects score candidates best =
     (case best of
        (None, bs) \<Rightarrow>
          bs = 0 \<and> (\<forall>j < length candidates. \<forall>s. score (candidates ! j) = Some s \<longrightarrow> s \<le> 0)
      | (Some m, bs) \<Rightarrow> 0 < bs \<and> first_best score candidates m bs)"

text \<open>The loop the four clients share, over any score.\<close>

fun best_by :: "('c \<Rightarrow> rat option) \<Rightarrow> 'c list \<Rightarrow> 'c option \<times> rat \<Rightarrow> 'c option \<times> rat" where
  "best_by score [] best = best"
| "best_by score (c # cs) (best_match, best_similarity) =
     (case score c of
        None \<Rightarrow> best_by score cs (best_match, best_similarity)
      | Some similarity \<Rightarrow>
          if best_similarity < similarity then best_by score cs (Some c, similarity)
          else best_by score cs (best_match, best_similarity))"

lemma cr_best_by: "cr_best title results best = best_by (cr_score title) results best"
  by (induction results arbitrary: best)
     (auto simp: cr_score_def Let_def split: option.splits)

lemma s2_best_by: "s2_best title papers best = best_by (s2_score title) papers best"
  by (induction papers arbitrary: best)
     (auto simp: s2_score_def Let_def split: option.splits)

lemma els_best_by: "els_best title entries best = best_by (els_score title) entries best"
  by (induction entries arbitrary: best)
     (auto simp: els_score_def Let_def split: option.splits)

lemma pm_best_by:
  "pm_best title articles best =
     (if \<exists>article \<in> set articles. pm_ArticleTitle article = None then None
      else Some (best_by (pm_score title) articles best))"
proof (induction articles arbitrary: best)
  case Nil
  show ?case by simp
next
  case (Cons a articles)
  obtain bm bs where best: "best = (bm, bs)" by (cases best) auto
  show ?case
  proof (cases "pm_ArticleTitle a")
    case None
    then show ?thesis by (simp add: best)
  next
    case (Some t)
    then have "(\<exists>article \<in> set (a # articles). pm_ArticleTitle article = None)
               = (\<exists>article \<in> set articles. pm_ArticleTitle article = None)"
      by simp
    then show ?thesis
      unfolding best using Some Cons.IH
      by (simp add: pm_score_def Let_def) (metis option.distinct(1))
  qed
qed

lemma best_by_cases:
  "best_by score cs (bm, bs) = (bm', bs') \<Longrightarrow>
   (bm' = bm \<and> bs' = bs \<and> (\<forall>j < length cs. \<forall>s. score (cs ! j) = Some s \<longrightarrow> s \<le> bs))
   \<or> (\<exists>i < length cs. bm' = Some (cs ! i) \<and> score (cs ! i) = Some bs'
         \<and> bs < bs'
         \<and> (\<forall>j < i. \<forall>s. score (cs ! j) = Some s \<longrightarrow> s < bs')
         \<and> (\<forall>j < length cs. \<forall>s. score (cs ! j) = Some s \<longrightarrow> s \<le> bs'))"
proof (induction cs arbitrary: bm bs)
  case Nil
  then show ?case by simp
next
  case (Cons r rs)
  have keep: ?case
    if run: "best_by score rs (bm, bs) = (bm', bs')"
      and head: "\<forall>s. score r = Some s \<longrightarrow> s \<le> bs"
  proof -
    from Cons.IH[OF run] show ?thesis
    proof
      assume a: "bm' = bm \<and> bs' = bs
                 \<and> (\<forall>j < length rs. \<forall>s. score (rs ! j) = Some s \<longrightarrow> s \<le> bs)"
      have "\<forall>j < length (r # rs). \<forall>s. score ((r # rs) ! j) = Some s \<longrightarrow> s \<le> bs"
        using a head by (auto simp: nth_Cons split: nat.splits)
      with a show ?thesis by blast
    next
      assume "\<exists>i < length rs. bm' = Some (rs ! i) \<and> score (rs ! i) = Some bs'
                \<and> bs < bs'
                \<and> (\<forall>j < i. \<forall>s. score (rs ! j) = Some s \<longrightarrow> s < bs')
                \<and> (\<forall>j < length rs. \<forall>s. score (rs ! j) = Some s \<longrightarrow> s \<le> bs')"
      then obtain i where i: "i < length rs" "bm' = Some (rs ! i)"
        "score (rs ! i) = Some bs'" "bs < bs'"
        "\<forall>j < i. \<forall>s. score (rs ! j) = Some s \<longrightarrow> s < bs'"
        "\<forall>j < length rs. \<forall>s. score (rs ! j) = Some s \<longrightarrow> s \<le> bs'"
        by blast
      have "Suc i < length (r # rs)" "bm' = Some ((r # rs) ! Suc i)"
        "score ((r # rs) ! Suc i) = Some bs'"
        using i by simp_all
      moreover have "\<forall>j < Suc i. \<forall>s. score ((r # rs) ! j) = Some s \<longrightarrow> s < bs'"
        using i(4,5) head by (fastforce simp: nth_Cons split: nat.splits)
      moreover have "\<forall>j < length (r # rs). \<forall>s. score ((r # rs) ! j) = Some s \<longrightarrow> s \<le> bs'"
        using i(4,6) head by (fastforce simp: nth_Cons split: nat.splits)
      ultimately show ?thesis using i(4) by blast
    qed
  qed
  show ?case
  proof (cases "score r")
    case None
    with Cons.prems have "best_by score rs (bm, bs) = (bm', bs')" by simp
    then show ?thesis by (rule keep) (simp add: None)
  next
    case (Some s0)
    show ?thesis
    proof (cases "bs < s0")
      case False
      with Cons.prems Some have "best_by score rs (bm, bs) = (bm', bs')" by simp
      then show ?thesis by (rule keep) (use Some False in simp)
    next
      case True
      with Cons.prems Some have run: "best_by score rs (Some r, s0) = (bm', bs')" by simp
      from Cons.IH[OF run] show ?thesis
      proof
        assume a: "bm' = Some r \<and> bs' = s0
                   \<and> (\<forall>j < length rs. \<forall>s. score (rs ! j) = Some s \<longrightarrow> s \<le> s0)"
        have "0 < length (r # rs)" "bm' = Some ((r # rs) ! 0)"
          "score ((r # rs) ! 0) = Some bs'" "bs < bs'"
          using a Some True by simp_all
        moreover have "\<forall>j < (0::nat). \<forall>s. score ((r # rs) ! j) = Some s \<longrightarrow> s < bs'"
          by simp
        moreover have "\<forall>j < length (r # rs). \<forall>s. score ((r # rs) ! j) = Some s \<longrightarrow> s \<le> bs'"
          using a Some by (auto simp: nth_Cons split: nat.splits)
        ultimately show ?thesis by blast
      next
        assume "\<exists>i < length rs. bm' = Some (rs ! i) \<and> score (rs ! i) = Some bs'
                  \<and> s0 < bs'
                  \<and> (\<forall>j < i. \<forall>s. score (rs ! j) = Some s \<longrightarrow> s < bs')
                  \<and> (\<forall>j < length rs. \<forall>s. score (rs ! j) = Some s \<longrightarrow> s \<le> bs')"
        then obtain i where i: "i < length rs" "bm' = Some (rs ! i)"
          "score (rs ! i) = Some bs'" "s0 < bs'"
          "\<forall>j < i. \<forall>s. score (rs ! j) = Some s \<longrightarrow> s < bs'"
          "\<forall>j < length rs. \<forall>s. score (rs ! j) = Some s \<longrightarrow> s \<le> bs'"
          by blast
        have "Suc i < length (r # rs)" "bm' = Some ((r # rs) ! Suc i)"
          "score ((r # rs) ! Suc i) = Some bs'" "bs < bs'"
          using i True by simp_all
        moreover have "\<forall>j < Suc i. \<forall>s. score ((r # rs) ! j) = Some s \<longrightarrow> s < bs'"
          using i(4,5) Some by (fastforce simp: nth_Cons split: nat.splits)
        moreover have "\<forall>j < length (r # rs). \<forall>s. score ((r # rs) ! j) = Some s \<longrightarrow> s \<le> bs'"
          using i(4,6) Some by (fastforce simp: nth_Cons split: nat.splits)
        ultimately show ?thesis by blast
      qed
    qed
  qed
qed

lemma best_by_selects: "selects score cs (best_by score cs (None, 0))"
proof -
  obtain bm bs where b: "best_by score cs (None, 0) = (bm, bs)"
    by (cases "best_by score cs (None, 0)") auto
  from best_by_cases[OF b] show ?thesis
  proof
    assume "bm = None \<and> bs = 0 \<and> (\<forall>j < length cs. \<forall>s. score (cs ! j) = Some s \<longrightarrow> s \<le> 0)"
    then show ?thesis by (simp add: b selects_def)
  next
    assume "\<exists>i < length cs. bm = Some (cs ! i) \<and> score (cs ! i) = Some bs \<and> 0 < bs
              \<and> (\<forall>j < i. \<forall>s. score (cs ! j) = Some s \<longrightarrow> s < bs)
              \<and> (\<forall>j < length cs. \<forall>s. score (cs ! j) = Some s \<longrightarrow> s \<le> bs)"
    then obtain i where i: "i < length cs" "bm = Some (cs ! i)" "score (cs ! i) = Some bs" "0 < bs"
      "\<forall>j < i. \<forall>s. score (cs ! j) = Some s \<longrightarrow> s < bs"
      "\<forall>j < length cs. \<forall>s. score (cs ! j) = Some s \<longrightarrow> s \<le> bs"
      by blast
    have "first_best score cs (cs ! i) bs"
      unfolding first_best_def using i by blast
    with i(2,4) show ?thesis by (simp add: b selects_def)
  qed
qed

lemma selects_Some: "selects score cs (Some m, bs) \<Longrightarrow> first_best score cs m bs"
  by (simp add: selects_def)

lemma with_retries_Reply:
  "with_retries body attempts tr = (Reply x, tr') \<Longrightarrow> \<exists>t. body t = (Reply x, tr')"
proof (induction attempts arbitrary: tr)
  case Nil
  then show ?case by simp
next
  case (Cons attempt rest)
  obtain r tr1 where b: "body tr = (r, tr1)" by (cases "body tr") auto
  show ?case
  proof (cases r)
    case (Reply y)
    with Cons.prems b have "body tr = (Reply x, tr')" by simp
    then show ?thesis by blast
  next
    case Failed
    with Cons.prems b have
      "with_retries body rest (tr1 @ [Sleep (retry_delay * (attempt + 1))]) = (Reply x, tr')"
      by (simp split: if_splits)
    from Cons.IH[OF this] show ?thesis .
  qed
qed

lemma crossref_select_first_best:
  assumes "crossref_select title min_similarity items = Some m"
  shows "\<exists>results s. items = Some results \<and> first_best (cr_score title) results m s
           \<and> min_similarity \<le> s"
proof -
  from assms obtain results where r: "items = Some results"
    by (cases items) (simp_all add: crossref_select_def)
  from crossref_select_Some[OF assms[unfolded r]] show ?thesis
    unfolding first_best_def r by blast
qed

lemma crossref_search_Some:
  assumes "crossref_search_by_title net title min_similarity tr = (Some m, tr')"
  shows "\<exists>t results s. crossref_query net t (clean_title title) = Reply (Some results)
           \<and> first_best (cr_score title) results m s \<and> min_similarity \<le> s"
proof -
  let ?body = "\<lambda>t. (crossref_query net t (clean_title title),
                     t @ [Request (CrossrefQuery (clean_title title))])"
  obtain r tr1 where w: "with_retries ?body [0..<max_retries] tr = (r, tr1)"
    by (cases "with_retries ?body [0..<max_retries] tr") auto
  from assms w obtain items where r: "r = Reply items"
    and sel: "crossref_select title min_similarity items = Some m"
    by (cases r) (simp_all add: crossref_search_by_title_def Let_def)
  from with_retries_Reply[OF w[unfolded r]] obtain t where
    q: "crossref_query net t (clean_title title) = Reply items" by auto
  from crossref_select_first_best[OF sel] q show ?thesis by blast
qed

lemma pubmed_attempt_Some:
  assumes "pubmed_search_attempt net title min_similarity t = (Reply (Some m), tr')"
  shows "\<exists>t1 ids records s. entrez_fetch net t1 ids = Reply records
           \<and> first_best (pm_score title) records m s \<and> min_similarity \<le> s"
proof -
  let ?t1 = "t @ [Request (EntrezSearch (clean_title title))]"
  from assms obtain ids where s: "entrez_search net t (clean_title title) = Reply ids"
    by (cases "entrez_search net t (clean_title title)")
       (simp_all add: pubmed_search_attempt_def Let_def)
  from assms s have ne: "ids \<noteq> []"
    by (auto simp: pubmed_search_attempt_def Let_def)
  from assms s ne obtain records where f: "entrez_fetch net ?t1 ids = Reply records"
    by (cases "entrez_fetch net ?t1 ids") (simp_all add: pubmed_search_attempt_def Let_def)
  from assms s ne f obtain bs where
    b: "pm_best title records (None, 0) = Some (Some m, bs)" and ms: "min_similarity \<le> bs"
    by (cases "pm_best title records (None, 0)")
       (auto simp: pubmed_search_attempt_def Let_def split: if_splits)
  from b have "best_by (pm_score title) records (None, 0) = (Some m, bs)"
    by (simp add: pm_best_by split: if_splits)
  with best_by_selects[of "pm_score title" records]
  have "first_best (pm_score title) records m bs"
    by (simp add: selects_def)
  with f ms show ?thesis by blast
qed

lemma pubmed_search_Some:
  assumes "pubmed_search_by_title net title min_similarity tr = (Some m, tr')"
  shows "\<exists>t1 ids records s. entrez_fetch net t1 ids = Reply records
           \<and> first_best (pm_score title) records m s \<and> min_similarity \<le> s"
proof -
  obtain r tr1 where
    w: "with_retries (pubmed_search_attempt net title min_similarity) [0..<max_retries] tr = (r, tr1)"
    by (cases "with_retries (pubmed_search_attempt net title min_similarity) [0..<max_retries] tr")
       auto
  from assms w have "r = Reply (Some m)"
    by (cases r) (simp_all add: pubmed_search_by_title_def)
  from with_retries_Reply[OF w[unfolded this]] obtain t where
    "pubmed_search_attempt net title min_similarity t = (Reply (Some m), tr1)" by auto
  from pubmed_attempt_Some[OF this] show ?thesis .
qed

lemma elsevier_attempt_Some:
  assumes "elsevier_search_attempt net title min_similarity t = (Reply (Some doc), tr')"
  shows "\<exists>entries hit s doi t2. scopus_search net t title = Reply (Some entries)
           \<and> first_best (els_score title) entries hit s \<and> min_similarity \<le> s
           \<and> els_prism_doi hit = Some doi \<and> fst (elsevier_get_by_doi net doi t2) = Some doc"
proof -
  let ?t1 = "t @ [Request (ScopusSearch title)]"
  from assms obtain entries where s: "scopus_search net t title = Reply (Some entries)"
    by (cases "scopus_search net t title")
       (auto simp: elsevier_search_attempt_def split: option.splits)
  obtain bm bs where b: "els_best title entries (None, 0) = (bm, bs)"
    by (cases "els_best title entries (None, 0)") auto
  from assms s b obtain hit where h: "bm = Some hit"
    by (cases bm) (simp_all add: elsevier_search_attempt_def)
  from assms s b h obtain doi where d: "els_prism_doi hit = Some doi"
    by (cases "els_prism_doi hit") (simp_all add: elsevier_search_attempt_def)
  from assms s b h d have ms: "min_similarity \<le> bs"
    and g: "fst (elsevier_get_by_doi net doi ?t1) = Some doc"
    by (auto simp: elsevier_search_attempt_def split: if_splits prod.splits)
  from b h have "best_by (els_score title) entries (None, 0) = (Some hit, bs)"
    by (simp add: els_best_by)
  with best_by_selects[of "els_score title" entries]
  have "first_best (els_score title) entries hit bs"
    by (simp add: selects_def)
  with s ms d g show ?thesis by blast
qed

lemma elsevier_search_Some:
  assumes "elsevier_search_by_title net title min_similarity tr = (Some doc, tr')"
  shows "\<exists>t entries hit s doi t2. scopus_search net t title = Reply (Some entries)
           \<and> first_best (els_score title) entries hit s \<and> min_similarity \<le> s
           \<and> els_prism_doi hit = Some doi \<and> fst (elsevier_get_by_doi net doi t2) = Some doc"
proof -
  obtain r tr1 where
    w: "with_retries (elsevier_search_attempt net title min_similarity) [0..<max_retries] tr = (r, tr1)"
    by (cases "with_retries (elsevier_search_attempt net title min_similarity) [0..<max_retries] tr")
       auto
  from assms w have "r = Reply (Some doc)"
    by (cases r) (simp_all add: elsevier_search_by_title_def)
  from with_retries_Reply[OF w[unfolded this]] obtain t where
    "elsevier_search_attempt net title min_similarity t = (Reply (Some doc), tr1)" by auto
  from elsevier_attempt_Some[OF this] show ?thesis by blast
qed

lemma s2_search_Some:
  assumes "s2_search_by_title net title tr = (Some p, tr')"
  shows "\<exists>t data papers m s. s2_search net t (clean_title title) = Reply data
           \<and> s2_papers data = Some papers
           \<and> first_best (s2_score title) papers m s \<and> default_min_similarity \<le> s
           \<and> (p = m \<or> (\<exists>paper_id t2. s2_paperId m = Some paper_id
                           \<and> s2_paper_get net t2 paper_id = Reply p))"
proof -
  let ?body = "\<lambda>t. (s2_search net t (clean_title title),
                     t @ [Request (S2Search (clean_title title))])"
  obtain r tr1 where w: "with_retries ?body [0..<max_retries] tr = (r, tr1)"
    by (cases "with_retries ?body [0..<max_retries] tr") auto
  from assms w obtain data where r: "r = Reply data"
    by (cases r) (simp_all add: s2_search_by_title_def Let_def)
  from with_retries_Reply[OF w[unfolded r]] obtain t where
    q: "s2_search net t (clean_title title) = Reply data" by auto
  from assms w r obtain papers where ps: "s2_papers data = Some papers"
    by (cases "s2_papers data")
       (auto simp: s2_search_by_title_def Let_def split: option.splits if_splits)
  obtain bm bs where b: "s2_best title papers (None, 0) = (bm, bs)"
    by (cases "s2_best title papers (None, 0)") auto
  from assms w r ps b have ms: "default_min_similarity \<le> bs"
    by (auto simp: s2_search_by_title_def Let_def split: option.splits if_splits)
  from assms w r ps b ms obtain m where m: "bm = Some m"
    by (cases bm) (auto simp: s2_search_by_title_def Let_def split: option.splits if_splits)
  from assms w r ps b ms m
  have ret: "p = m \<or> (\<exists>paper_id. s2_paperId m = Some paper_id
                         \<and> s2_paper_get net tr1 paper_id = Reply p)"
    by (auto simp: s2_search_by_title_def Let_def split: option.splits if_splits reply.splits)
  from b m have "best_by (s2_score title) papers (None, 0) = (Some m, bs)"
    by (simp add: s2_best_by)
  with best_by_selects[of "s2_score title" papers]
  have "first_best (s2_score title) papers m bs"
    by (simp add: selects_def)
  with q ps ms ret show ?thesis by blast
qed

text \<open>
  Sample catalogues. In \<open>scopus_hit_without_doi\<close> the Scopus search knows the title but
  its hit carries no \<open>prism:doi\<close>. In \<open>catalogue\<close> every provider lists an unrelated
  record first and the record titled \<open>ab\<close> after it (Crossref lists it twice).
\<close>

definition hit_without_doi :: els_hit where
  "hit_without_doi = \<lparr>els_dc_title = Some ''ab'', els_prism_doi = None\<rparr>"

definition scopus_hit_without_doi :: network where
  "scopus_hit_without_doi = offline\<lparr>scopus_search := (\<lambda>tr q. Reply (Some [hit_without_doi]))\<rparr>"

definition paper_other :: s2_paper where
  "paper_other = \<lparr>s2_title = Some ''xy'', s2_paperId = Some ''p0'', s2_abstract = None\<rparr>"

definition paper_ab :: s2_paper where
  "paper_ab = \<lparr>s2_title = Some ''ab'', s2_paperId = Some ''p1'', s2_abstract = None\<rparr>"

definition paper_details :: s2_paper where
  "paper_details = \<lparr>s2_title = Some ''ab'', s2_paperId = Some ''p1'', s2_abstract = Some ''Details.''\<rparr>"

definition hit_other :: els_hit where
  "hit_other = \<lparr>els_dc_title = Some ''xy'', els_prism_doi = Some ''10.1/o''\<rparr>"

definition hit_ab :: els_hit where
  "hit_ab = \<lparr>els_dc_title = Some ''ab'', els_prism_doi = Some ''10.1/e''\<rparr>"

definition doc_ab :: els_doc where
  "doc_ab = \<lparr>els_abstracts_retrieval = Some (Coredata (Some ''Full record.'')),
             els_full_text_retrieval = None\<rparr>"

definition article_other :: pm_article where
  "article_other = \<lparr>pm_ArticleTitle = Some ''xy'', pm_AbstractText = None\<rparr>"

definition article_ab :: pm_article where
  "article_ab = \<lparr>pm_ArticleTitle = Some ''AB'', pm_AbstractText = Some [''Text.'']\<rparr>"

definition catalogue :: network where
  "catalogue =
     \<lparr>crossref_work = (\<lambda>tr doi. Failed),
      crossref_query = (\<lambda>tr q. Reply (Some [candidate_3, candidate_1, candidate_2])),
      s2_paper_get = (\<lambda>tr i. Reply paper_details),
      s2_search = (\<lambda>tr q. Reply \<lparr>s2_total = Some 2, s2_papers = Some [paper_other, paper_ab]\<rparr>),
      elsevier_abstract = (\<lambda>tr doi. Reply doc_ab),
      scopus_search = (\<lambda>tr q. Reply (Some [hit_other, hit_ab])),
      entrez_fetch = (\<lambda>tr ids. Reply [article_other, article_ab]),
      entrez_search = (\<lambda>tr q. Reply [''1'', ''2''])\<rparr>"

text \<open>
  Reaching the threshold is necessary for a match and, outside Crossref, not sufficient.
  Here the only candidate of the list scores 1 and the Elsevier search still yields no
  match: \<open>ElsevierAPI.search_by_title\<close> returns a record only for a selected candidate
  that carries a \<open>prism:doi\<close>, and then the record it looks up by that DOI.
\<close>

lemma elsevier_match_needs_doi:
  "els_score ''ab'' hit_without_doi = Some 1 \<and> default_min_similarity \<le> 1
   \<and> elsevier_search_by_title scopus_hit_without_doi ''ab'' default_min_similarity []
       = (None, [Request (ScopusSearch ''ab'')])"
  by code_simp

text \<open>
  C6. In the title search of every provider (Crossref, Semantic Scholar, Elsevier, PubMed)
  the loop over the candidates selects the first candidate with the maximum similarity
  score, so that of several candidates tied at the maximum the first in the provider's
  order is kept (no candidate is selected when no score is above 0; the PubMed loop raises
  when an article has no title). The search returns a match only if the score of the
  selected candidate reaches the threshold; when every score is below it the search
  yields no match. What is returned for the selected candidate \<open>m\<close>: Crossref and PubMed
  return \<open>m\<close>; Semantic Scholar returns \<open>m\<close> or the paper it fetches by \<open>m\<close>'s
  \<open>paperId\<close>; Elsevier returns the record it looks up by \<open>m\<close>'s \<open>prism:doi\<close>. For
  Crossref a candidate that reaches the threshold with a similarity above 0 is also enough
  for a match.
\<close>

theorem title_search_selects_first_best:
  "selects (cr_score title) results (cr_best title results (None, 0))
   \<and> selects (s2_score title) papers (s2_best title papers (None, 0))
   \<and> selects (els_score title) entries (els_best title entries (None, 0))
   \<and> (pm_best title articles (None, 0) = None
        \<longleftrightarrow> (\<exists>article \<in> set articles. pm_ArticleTitle article = None))
   \<and> (pm_best title articles (None, 0) = Some best \<longrightarrow> selects (pm_score title) articles best)
   \<and> (crossref_search_by_title net title min_similarity tr = (Some cr_match, cr_tr) \<longrightarrow>
        (\<exists>t rs s. crossref_query net t (clean_title title) = Reply (Some rs)
           \<and> first_best (cr_score title) rs cr_match s \<and> min_similarity \<le> s))
   \<and> (pubmed_search_by_title net title min_similarity tr = (Some pm_match, pm_tr) \<longrightarrow>
        (\<exists>t ids records s. entrez_fetch net t ids = Reply records
           \<and> first_best (pm_score title) records pm_match s \<and> min_similarity \<le> s))
   \<and> (elsevier_search_by_title net title min_similarity tr = (Some els_match, els_tr) \<longrightarrow>
        (\<exists>t hits hit s doi t2. scopus_search net t title = Reply (Some hits)
           \<and> first_best (els_score title) hits hit s \<and> min_similarity \<le> s
           \<and> els_prism_doi hit = Some doi
           \<and> fst (elsevier_get_by_doi net doi t2) = Some els_match))
   \<and> (s2_search_by_title net title tr = (Some s2_match, s2_tr) \<longrightarrow>
        (\<exists>t data ps m s. s2_search net t (clean_title title) = Reply data
           \<and> s2_papers data = Some ps
           \<and> first_best (s2_score title) ps m s \<and> default_min_similarity \<le> s
           \<and> (s2_match = m \<or> (\<exists>paper_id t2. s2_paperId m = Some paper_id
                                   \<and> s2_paper_get net t2 paper_id = Reply s2_match))))
   \<and> (crossref_select title min_similarity (Some results) = Some m \<longrightarrow>
        (\<exists>i < length results. results ! i = m
           \<and> (\<exists>s. cr_score title m = Some s \<and> min_similarity \<le> s
                \<and> (\<forall>j < length results. \<forall>s'. cr_score title (results ! j) = Some s' \<longrightarrow> s' \<le> s)
                \<and> (\<forall>j < i. \<forall>s'. cr_score title (results ! j) = Some s' \<longrightarrow> s' < s))))
   \<and> ((\<forall>r \<in> set results. \<forall>s. cr_score title r = Some s \<longrightarrow> s < min_similarity) \<longrightarrow>
        crossref_select title min_similarity (Some results) = None)
   \<and> ((\<exists>r \<in> set results. \<exists>s. cr_score title r = Some s \<and> min_similarity \<le> s \<and> 0 < s) \<longrightarrow>
        crossref_select title min_similarity (Some results) \<noteq> None)"
proof -
  have l1: "selects (cr_score title) results (cr_best title results (None, 0))"
    unfolding cr_best_by by (rule best_by_selects)
  have l2: "selects (s2_score title) papers (s2_best title papers (None, 0))"
    unfolding s2_best_by by (rule best_by_selects)
  have l3: "selects (els_score title) entries (els_best title entries (None, 0))"
    unfolding els_best_by by (rule best_by_selects)
  have l4: "pm_best title articles (None, 0) = None
            \<longleftrightarrow> (\<exists>article \<in> set articles. pm_ArticleTitle article = None)"
    by (simp add: pm_best_by)
  have l5: "pm_best title articles (None, 0) = Some best \<longrightarrow> selects (pm_score title) articles best"
    using best_by_selects[of "pm_score title" articles]
    by (auto simp: pm_best_by split: if_splits)
  note s1 = crossref_search_Some[of net title min_similarity tr cr_match cr_tr]
  note s2 = pubmed_search_Some[of net title min_similarity tr pm_match pm_tr]
  note s3 = elsevier_search_Some[of net title min_similarity tr els_match els_tr]
  note s4 = s2_search_Some[of net title tr s2_match s2_tr]
  note c1 = crossref_select_Some[of title min_similarity results m]
  note c2 = crossref_select_below[of results title min_similarity]
  note c3 = crossref_select_reaches[of _ results title _ min_similarity]
  show ?thesis
    apply (intro conjI impI)
    subgoal by (rule l1)
    subgoal by (rule l2)
    subgoal by (rule l3)
    subgoal by (rule l4)
    subgoal using l5 by blast
    subgoal using s1 by blast
    subgoal using s2 by blast
    subgoal using s3 by blast
    subgoal using s4 by blast
    subgoal using c1 by blast
    subgoal using c2 by blast
    subgoal using c3 by blast
    done
qed

text \<open>
  In \<open>catalogue\<close> every search returns the record titled \<open>ab\<close> although it is not listed
  first: Crossref the first of its two tied candidates, PubMed the article, Elsevier the
  record looked up by the hit's DOI, Semantic Scholar the paper fetched by the id.
\<close>

theorem title_search_selects_first_best_witness:
  "crossref_search_by_title catalogue ''ab'' default_min_similarity []
     = (Some candidate_1, [Request (CrossrefQuery ''ab'')])
   \<and> (\<exists>t rs s. crossref_query catalogue t (clean_title ''ab'') = Reply (Some rs)
         \<and> first_best (cr_score ''ab'') rs candidate_1 s \<and> default_min_similarity \<le> s)
   \<and> pubmed_search_by_title catalogue ''ab'' default_min_similarity []
     = (Some article_ab, [Request (EntrezSearch ''ab''), Request (EntrezFetch [''1'', ''2''])])
   \<and> (\<exists>t ids records s. entrez_fetch catalogue t ids = Reply records
         \<and> first_best (pm_score ''ab'') records article_ab s \<and> default_min_similarity \<le> s)
   \<and> elsevier_search_by_title catalogue ''ab'' default_min_similarity []
     = (Some doc_ab, [Request (ScopusSearch ''ab''), Request (ElsevierAbstract ''10.1/e'')])
   \<and> (\<exists>t hits hit s doi t2. scopus_search catalogue t ''ab'' = Reply (Some hits)
         \<and> first_best (els_score ''ab'') hits hit s \<and> default_min_similarity \<le> s
         \<and> els_prism_doi hit = Some doi
         \<and> fst (elsevier_get_by_doi catalogue doi t2) = Some doc_ab)
   \<and> s2_search_by_title catalogue ''ab'' []
     = (Some paper_details, [Request (S2Search ''ab''), Request (S2Paper ''p1'')])
   \<and> (\<exists>t data ps m s. s2_search catalogue t (clean_title ''ab'') = Reply data
         \<and> s2_papers data = Some ps
         \<and> first_best (s2_score ''ab'') ps m s \<and> default_min_similarity \<le> s
         \<and> (paper_details = m \<or> (\<exists>paper_id t2. s2_paperId m = Some paper_id
                                      \<and> s2_paper_get catalogue t2 paper_id = Reply paper_details)))
   \<and> pm_best ''ab'' [article_other, article_ab] (None, 0) = Some (Some article_ab, 1)
   \<and> selects (pm_score ''ab'') [article_other, article_ab] (Some article_ab, 1)
   \<and> crossref_select ''ab'' default_min_similarity (Some [candidate_3, candidate_1, candidate_2])
     = Some candidate_1
   \<and> (\<exists>i < length [candidate_3, candidate_1, candidate_2].
         [candidate_3, candidate_1, candidate_2] ! i = candidate_1
         \<and> (\<exists>s. cr_score ''ab'' candidate_1 = Some s \<and> default_min_similarity \<le> s
              \<and> (\<forall>j < length [candidate_3, candidate_1, candidate_2].
                    \<forall>s'. cr_score ''ab'' ([candidate_3, candidate_1, candidate_2] ! j) = Some s' \<longrightarrow> s' \<le> s)
              \<and> (\<forall>j < i. \<forall>s'. cr_score ''ab'' ([candidate_3, candidate_1, candidate_2] ! j) = Some s'
                    \<longrightarrow> s' < s)))
   \<and> cr_score ''ab'' candidate_3 = Some 0 \<and> (0 :: rat) < default_min_similarity
   \<and> crossref_select ''ab'' default_min_similarity (Some [candidate_3]) = None
   \<and> cr_score ''ab'' candidate_2 = Some 1 \<and> default_min_similarity \<le> 1
   \<and> crossref_select ''ab'' default_min_similarity (Some [candidate_3, candidate_1, candidate_2]) \<noteq> None"
proof -
  have e1: "crossref_search_by_title catalogue ''ab'' default_min_similarity []
            = (Some candidate_1, [Request (CrossrefQuery ''ab'')])"
    by code_simp
  have e2: "pubmed_search_by_title catalogue ''ab'' default_min_similarity []
            = (Some article_ab, [Request (EntrezSearch ''ab''), Request (EntrezFetch [''1'', ''2''])])"
    by code_simp
  have e3: "elsevier_search_by_title catalogue ''ab'' default_min_similarity []
            = (Some doc_ab, [Request (ScopusSearch ''ab''), Request (ElsevierAbstract ''10.1/e'')])"
    by code_simp
  have e4: "s2_search_by_title catalogue ''ab'' []
            = (Some paper_details, [Request (S2Search ''ab''), Request (S2Paper ''p1'')])"
    by code_simp
  have e5: "pm_best ''ab'' [article_other, article_ab] (None, 0) = Some (Some article_ab, 1)"
    by code_simp
  have sel: "crossref_select ''ab'' default_min_similarity (Some [candidate_3, candidate_1, candidate_2])
             = Some candidate_1"
    by code_simp
  have s3: "cr_score ''ab'' candidate_3 = Some 0" by code_simp
  have s2: "cr_score ''ab'' candidate_2 = Some 1" by code_simp
  have ms: "(0 :: rat) < default_min_similarity" "default_min_similarity \<le> 1"
    by (simp_all add: default_min_similarity_def)
  have below: "\<forall>r \<in> set [candidate_3]. \<forall>s. cr_score ''ab'' r = Some s \<longrightarrow> s < default_min_similarity"
    using s3 ms by simp
  have reach: "\<exists>r \<in> set [candidate_3, candidate_1, candidate_2].
                 \<exists>s. cr_score ''ab'' r = Some s \<and> default_min_similarity \<le> s \<and> 0 < s"
    using s2 ms by simp
  note thm1 = title_search_selects_first_best
    [of "''ab''" "[candidate_3, candidate_1, candidate_2]" _ _ "[article_other, article_ab]"
        "(Some article_ab, 1)" catalogue default_min_similarity "[]"
        candidate_1 "[Request (CrossrefQuery ''ab'')]"
        article_ab "[Request (EntrezSearch ''ab''), Request (EntrezFetch [''1'', ''2''])]"
        doc_ab "[Request (ScopusSearch ''ab''), Request (ElsevierAbstract ''10.1/e'')]"
        paper_details "[Request (S2Search ''ab''), Request (S2Paper ''p1'')]"
        candidate_1]
  note thm2 = title_search_selects_first_best
    [of "''ab''" "[candidate_3]" _ _ _ _ _ default_min_similarity]
  have a1: "\<exists>t rs s. crossref_query catalogue t (clean_title ''ab'') = Reply (Some rs)
         \<and> first_best (cr_score ''ab'') rs candidate_1 s \<and> default_min_similarity \<le> s"
    using thm1 e1 by blast
  have a2: "\<exists>t ids records s. entrez_fetch catalogue t ids = Reply records
         \<and> first_best (pm_score ''ab'') records article_ab s \<and> default_min_similarity \<le> s"
    using thm1 e2 by blast
  have a3: "\<exists>t hits hit s doi t2. scopus_search catalogue t ''ab'' = Reply (Some hits)
         \<and> first_best (els_score ''ab'') hits hit s \<and> default_min_similarity \<le> s
         \<and> els_prism_doi hit = Some doi
         \<and> fst (elsevier_get_by_doi catalogue doi t2) = Some doc_ab"
    using thm1 e3 by blast
  have a4: "\<exists>t data ps m s. s2_search catalogue t (clean_title ''ab'') = Reply data
         \<and> s2_papers data = Some ps
         \<and> first_best (s2_score ''ab'') ps m s \<and> default_min_similarity \<le> s
         \<and> (paper_details = m \<or> (\<exists>paper_id t2. s2_paperId m = Some paper_id
                                      \<and> s2_paper_get catalogue t2 paper_id = Reply paper_details))"
    using thm1 e4 by blast
  have a5: "selects (pm_score ''ab'') [article_other, article_ab] (Some article_ab, 1)"
    using thm1 e5 by blast
  have a: "\<exists>i < length [candidate_3, candidate_1, candidate_2].
         [candidate_3, candidate_1, candidate_2] ! i = candidate_1
         \<and> (\<exists>s. cr_score ''ab'' candidate_1 = Some s \<and> default_min_similarity \<le> s
              \<and> (\<forall>j < length [candidate_3, candidate_1, candidate_2].
                    \<forall>s'. cr_score ''ab'' ([candidate_3, candidate_1, candidate_2] ! j) = Some s' \<longrightarrow> s' \<le> s)
              \<and> (\<forall>j < i. \<forall>s'. cr_score ''ab'' ([candidate_3, candidate_1, candidate_2] ! j) = Some s'
                    \<longrightarrow> s' < s))"
    using thm1 sel by blast
  have b: "crossref_select ''ab'' default_min_similarity (Some [candidate_3]) = None"
    using thm2 below by blast
  have c: "crossref_select ''ab'' default_min_similarity (Some [candidate_3, candidate_1, candidate_2]) \<noteq> None"
    using thm1 reach by blast
  show ?thesis
    using e1 a1 e2 a2 e3 a3 e4 a4 e5 a5 sel a s3 ms b s2 c
    by (intro conjI) assumption+
qed

end
